theory Spec2Isabelle
  imports
    Complex_Main
    "HOL-Library.Char_ord"
    "HOL-Library.List_Lexorder"
    "HOL-Library.AList"
    "HOL-Library.Multiset"
begin

section \<open>Python values used by the two scripts\<close>

text \<open>
  The repository holds two Python scripts, \<^verbatim>\<open>performance/hyperfine-commits.py\<close> (the
  Runner) and \<^verbatim>\<open>performance/transform-benchmark-data.py\<close> (the Transformer). Both are
  straight-line code over strings, lists and dictionaries.

  A Python \<^verbatim>\<open>str\<close> is a \<^typ>\<open>string\<close>; one \<^typ>\<open>char\<close> stands for one character of the
  \<^verbatim>\<open>str\<close>, so the model covers strings over the first 256 code points. An exception that
  nothing catches is a value \<open>Inl e\<close>; a script that runs to its end yields \<open>Inr\<close>.
\<close>

datatype py_error =
    KeyError string
  | TypeError
  | AttributeError
  | OSError
  | CalledProcessError int "string list"

text \<open>
  What \<^verbatim>\<open>json.load\<close> returns. A number is only ever copied by the Transformer, so its
  representation (Python \<^verbatim>\<open>int\<close> or \<^verbatim>\<open>float\<close>) is the type parameter. A Python \<^verbatim>\<open>dict\<close>
  keeps its keys in insertion order: it is an association list, read through its first
  entry for a key (the lists that stand for dicts have distinct keys). Parsing the
  text on standard input and printing the result are left to \<^verbatim>\<open>json\<close>: the model starts
  at the parsed document and ends at the value handed to \<^verbatim>\<open>json.dump\<close>.
\<close>

datatype 'n json =
    JNull
  | JBool bool
  | JNum 'n
  | JStr string
  | JArr "'n json list"
  | JObj "(string \<times> 'n json) list"

text \<open>\<^verbatim>\<open>x[k]\<close> for a string key \<open>k\<close>: only a dict can be subscripted by a string.\<close>

definition getitem :: "'n json \<Rightarrow> string \<Rightarrow> py_error + 'n json" where
  "getitem x k =
     (case x of
        JObj d \<Rightarrow> (case map_of d k of None \<Rightarrow> Inl (KeyError k) | Some v \<Rightarrow> Inr v)
      | _ \<Rightarrow> Inl TypeError)"

text \<open>\<^verbatim>\<open>d[k] = v\<close>: an existing key keeps its position, a new key goes to the end.\<close>

definition setitem :: "(string \<times> 'v) list \<Rightarrow> string \<Rightarrow> 'v \<Rightarrow> (string \<times> 'v) list" where
  "setitem d k v = AList.update k v d"

text \<open>\<^verbatim>\<open>del d[k]\<close> raises \<^verbatim>\<open>KeyError\<close> on a missing key.\<close>

definition delitem :: "(string \<times> 'v) list \<Rightarrow> string \<Rightarrow> py_error + (string \<times> 'v) list" where
  "delitem d k =
     (case map_of d k of None \<Rightarrow> Inl (KeyError k) | Some _ \<Rightarrow> Inr (AList.delete k d))"

text \<open>
  \<^verbatim>\<open>for x in v\<close>: a list yields its elements, a string its characters, a dict its keys;
  \<^verbatim>\<open>None\<close>, booleans and numbers are not iterable.
\<close>

definition iter :: "'n json \<Rightarrow> py_error + 'n json list" where
  "iter v =
     (case v of
        JArr xs \<Rightarrow> Inr xs
      | JStr s \<Rightarrow> Inr (map (\<lambda>c. JStr [c]) s)
      | JObj d \<Rightarrow> Inr (map (\<lambda>(k, _). JStr k) d)
      | _ \<Rightarrow> Inl TypeError)"

section \<open>Regular expressions: \<^verbatim>\<open>re.match\<close> with capture groups\<close>

text \<open>
  The Transformer's only parsing is one call of \<^verbatim>\<open>re.match\<close>. The pattern is embedded as
  a syntax tree and matched the way Python's backtracking matcher does: \<open>ms r (s, c)\<close>
  lists, in the order the matcher tries them, every way of matching \<open>r\<close> at the start of
  \<open>s\<close>, each as the rest of the string and the captures so far. Quantifiers are greedy
  (the longer alternative comes first), and \<^verbatim>\<open>re.match\<close> takes the first success; it
  anchors the match at the start of the string only. A repetition stops after an
  iteration that consumed nothing; the quantified classes of the Transformer's pattern
  always consume a character. A capture is undone with the alternative that made it: the
  captures travel with each way of matching.
\<close>

datatype cls =
    Lit char
  | Ranges "(char \<times> char) list"
  | NotChars "char list"
  | Dot

fun cls_ok :: "cls \<Rightarrow> char \<Rightarrow> bool" where
  "cls_ok (Lit a) x = (x = a)"
| "cls_ok (Ranges rs) x = list_ex (\<lambda>(lo, hi). lo \<le> x \<and> x \<le> hi) rs"
| "cls_ok (NotChars cs) x = (x \<notin> set cs)"
| "cls_ok Dot x = (x \<noteq> CHR 0x0A)"

datatype re =
    Atom cls
  | Seq re re
  | Opt re
  | Star re
  | Group nat re

text \<open>\<^verbatim>\<open>r+\<close> is \<^verbatim>\<open>rr*\<close>.\<close>

definition Plus :: "re \<Rightarrow> re" where
  "Plus r = Seq r (Star r)"

type_synonym caps = "nat \<Rightarrow> string option"

function ms :: "re \<Rightarrow> string \<times> caps \<Rightarrow> (string \<times> caps) list" where
  "ms (Atom k) (s, c) =
     (case s of [] \<Rightarrow> [] | x # xs \<Rightarrow> if cls_ok k x then [(xs, c)] else [])"
| "ms (Seq a b) st = concat (map (ms b) (ms a st))"
| "ms (Opt a) st = ms a st @ [st]"
| "ms (Star a) st =
     concat (map (\<lambda>st'. if length (fst st') < length (fst st) then ms (Star a) st' else [])
                 (ms a st)) @ [st]"
| "ms (Group n a) (s, c) =
     map (\<lambda>(s', c'). (s', c'(n \<mapsto> take (length s - length s') s))) (ms a (s, c))"
  by pat_completeness auto
termination
  by (relation "measures [\<lambda>(r, st). size r, \<lambda>(r, st). length (fst st)]") auto

text \<open>\<^verbatim>\<open>re.match(p, s)\<close> is \<^verbatim>\<open>None\<close> or a match object, here its captures.\<close>

definition re_match :: "re \<Rightarrow> string \<Rightarrow> caps option" where
  "re_match p s = (case ms p (s, Map.empty) of [] \<Rightarrow> None | (_, c) # _ \<Rightarrow> Some c)"

text \<open>\<^verbatim>\<open>m.groups()\<close> for a pattern of three groups; a group that took no part is \<^verbatim>\<open>None\<close>.\<close>

definition groups :: "caps \<Rightarrow> string option \<times> string option \<times> string option" where
  "groups c = (c 1, c 2, c 3)"

text \<open>The pattern \<^verbatim>\<open>([^/]+/)?([0-9]+)-([0-9a-f]+) .*\<close> of the Transformer.\<close>

definition label_pattern :: re where
  "label_pattern =
     Seq (Opt (Group 1 (Seq (Plus (Atom (NotChars ''/''))) (Atom (Lit CHR ''/'')))))
    (Seq (Group 2 (Plus (Atom (Ranges [(CHR ''0'', CHR ''9'')]))))
    (Seq (Atom (Lit CHR ''-''))
    (Seq (Group 3 (Plus (Atom (Ranges [(CHR ''0'', CHR ''9''), (CHR ''a'', CHR ''f'')]))))
    (Seq (Atom (Lit CHR '' ''))
         (Star (Atom Dot))))))"

section \<open>The Transformer\<close>

text \<open>
  The repository read through \<^verbatim>\<open>pygit2\<close>: a branch name is mapped to the commits that
  \<^verbatim>\<open>repo.walk\<close> yields from the branch's target, each with its full hexadecimal id and
  its message. \<^verbatim>\<open>repo.branches.get("master")\<close> is \<^verbatim>\<open>None\<close> for a missing branch, and
  \<^verbatim>\<open>.target\<close> of \<^verbatim>\<open>None\<close> raises \<^verbatim>\<open>AttributeError\<close>. The directory \<^verbatim>\<open>.git\<close> is taken
  to hold a repository.
\<close>

record commit =
  hex :: string
  message :: string

type_synonym repository = "string \<rightharpoonup> commit list"

text \<open>The dict comprehension: entries are stored in walk order, a later one wins.\<close>

definition commit2message :: "commit list \<Rightarrow> (string \<rightharpoonup> string)" where
  "commit2message walk = fold (\<lambda>c m. m(hex c \<mapsto> message c)) walk Map.empty"

text \<open>\<^verbatim>\<open>f"{g}"\<close> for a group: the string itself, or \<^verbatim>\<open>"None"\<close>.\<close>

definition format_group :: "string option \<Rightarrow> string" where
  "format_group g = (case g of None \<Rightarrow> ''None'' | Some s \<Rightarrow> s)"

text \<open>\<^verbatim>\<open>commit2message.get(commit, "")\<close>; \<^verbatim>\<open>None\<close> is never a key.\<close>

definition get_message :: "(string \<rightharpoonup> string) \<Rightarrow> string option \<Rightarrow> string" where
  "get_message c2m g =
     (case g of
        None \<Rightarrow> ''''
      | Some h \<Rightarrow> (case c2m h of None \<Rightarrow> '''' | Some m \<Rightarrow> m))"

text \<open>Lines 19 to 23: the record appended for one sample \<open>time\<close> of \<open>row\<close>.\<close>

definition output_row ::
  "(string \<rightharpoonup> string) \<Rightarrow> (string \<times> 'n json) list \<Rightarrow> string option \<Rightarrow> string option \<Rightarrow>
     'n json \<Rightarrow> py_error + (string \<times> 'n json) list" where
  "output_row c2m row num commit time =
     (let r1 = row;
          r2 = setitem r1 ''commit'' (JStr (format_group num @ ''-'' @ format_group commit));
          r3 = setitem r2 ''message'' (JStr (get_message c2m commit))
      in case delitem r3 ''times'' of
           Inl e \<Rightarrow> Inl e
         | Inr r4 \<Rightarrow> Inr (setitem r4 ''time'' time))"

text \<open>The inner loop, lines 18 to 25, appending to \<open>output\<close>.\<close>

fun times_loop ::
  "(string \<rightharpoonup> string) \<Rightarrow> (string \<times> 'n json) list \<Rightarrow> string option \<Rightarrow> string option \<Rightarrow>
     'n json list \<Rightarrow> 'n json list \<Rightarrow> py_error + 'n json list" where
  "times_loop c2m row num commit [] output = Inr output"
| "times_loop c2m row num commit (time # samples) output =
     (case output_row c2m row num commit time of
        Inl e \<Rightarrow> Inl e
      | Inr r \<Rightarrow> times_loop c2m row num commit samples (output @ [JObj r]))"

text \<open>
  The body of the outer loop, lines 17 to 25, for one \<open>row\<close>. \<^verbatim>\<open>re.match\<close> wants a string,
  and \<^verbatim>\<open>.groups()\<close> of \<^verbatim>\<open>None\<close> raises \<^verbatim>\<open>AttributeError\<close>.
\<close>

definition process_row ::
  "(string \<rightharpoonup> string) \<Rightarrow> 'n json \<Rightarrow> 'n json list \<Rightarrow> py_error + 'n json list" where
  "process_row c2m row output =
     (case getitem row ''command'' of
        Inl e \<Rightarrow> Inl e
      | Inr command \<Rightarrow>
          (case command of
             JStr s \<Rightarrow>
               (case re_match label_pattern s of
                  None \<Rightarrow> Inl AttributeError
                | Some m \<Rightarrow>
                    (case groups m of
                       (dir, num, commit) \<Rightarrow>
                         (case getitem row ''times'' of
                            Inl e \<Rightarrow> Inl e
                          | Inr ts \<Rightarrow>
                              (case iter ts of
                                 Inl e \<Rightarrow> Inl e
                               | Inr samples \<Rightarrow>
                                   (case row of
                                      JObj d \<Rightarrow> times_loop c2m d num commit samples output
                                    | _ \<Rightarrow> Inl TypeError)))))
           | _ \<Rightarrow> Inl TypeError))"

text \<open>The outer loop, line 16.\<close>

fun results_loop ::
  "(string \<rightharpoonup> string) \<Rightarrow> 'n json list \<Rightarrow> 'n json list \<Rightarrow> py_error + 'n json list" where
  "results_loop c2m [] output = Inr output"
| "results_loop c2m (row # rows) output =
     (case process_row c2m row output of
        Inl e \<Rightarrow> Inl e
      | Inr output' \<Rightarrow> results_loop c2m rows output')"

text \<open>
  The whole script, from the repository and the document parsed from standard input to
  the array handed to \<^verbatim>\<open>json.dump\<close>.
\<close>

definition transform_benchmark_data :: "repository \<Rightarrow> 'n json \<Rightarrow> py_error + 'n json" where
  "transform_benchmark_data repo input =
     (case repo ''master'' of
        None \<Rightarrow> Inl AttributeError
      | Some walk \<Rightarrow>
          (let c2m = commit2message walk
           in case getitem input ''results'' of
                Inl e \<Rightarrow> Inl e
              | Inr results \<Rightarrow>
                  (case iter results of
                     Inl e \<Rightarrow> Inl e
                   | Inr rows \<Rightarrow>
                       (case results_loop c2m rows [] of
                          Inl e \<Rightarrow> Inl e
                        | Inr output \<Rightarrow> Inr (JArr output)))))"

section \<open>The Runner\<close>

text \<open>
  The namespace \<^verbatim>\<open>argparse\<close> returns for the three positional arguments. The parser
  declares nothing else, and a command line it rejects ends the script before anything
  below runs.
\<close>

record args =
  input_file :: string
  executables_dir :: string
  output_file :: string

text \<open>
  The operating system as the Runner sees it: \<^verbatim>\<open>os.listdir\<close> gives the entries of a
  directory in no particular order, or fails; starting a process gives its return code,
  or fails when the program cannot be started.
\<close>

record os =
  listdir :: "string \<Rightarrow> py_error + string list"
  call :: "string list \<Rightarrow> py_error + int"

text \<open>\<^verbatim>\<open>f"{n}"\<close> for a natural number: its decimal digits.\<close>

fun str_nat :: "nat \<Rightarrow> string" where
  "str_nat n =
     (if n < 10 then [char_of (48 + n)]
      else str_nat (n div 10) @ [char_of (48 + n mod 10)])"

declare str_nat.simps [simp del]

definition runs :: nat where
  "runs = 5"

text \<open>Lines 13 to 24: the argument list, for the entries \<^verbatim>\<open>os.listdir\<close> returned.\<close>

definition hyperfine_args :: "args \<Rightarrow> string list \<Rightarrow> string list" where
  "hyperfine_args a entries =
     [''hyperfine'', ''--runs'', str_nat runs, ''--export-json'', output_file a,
      ''--ignore-failure'']
     @ map (\<lambda>executable.
              executables_dir a @ ''/'' @ executable @ '' < '' @ input_file a @ '' > /dev/null'')
           (sort entries)"

text \<open>\<^verbatim>\<open>subprocess.check_call\<close>: a return code other than 0 is raised.\<close>

definition check_call :: "os \<Rightarrow> string list \<Rightarrow> py_error + int" where
  "check_call sys cmd =
     (case call sys cmd of
        Inl e \<Rightarrow> Inl e
      | Inr retcode \<Rightarrow> if retcode \<noteq> 0 then Inl (CalledProcessError retcode cmd) else Inr 0)"

text \<open>
  The whole script: the processes it started, in order, and how it ended.
\<close>

definition hyperfine_commits :: "os \<Rightarrow> args \<Rightarrow> string list list \<times> (py_error + int)" where
  "hyperfine_commits sys a =
     (case listdir sys (executables_dir a) of
        Inl e \<Rightarrow> ([], Inl e)
      | Inr entries \<Rightarrow>
          (let cmd = hyperfine_args a entries in ([cmd], check_call sys cmd)))"

text \<open>
  The exit status of the interpreter: 1 after an exception nothing caught, 0 at the end
  of the script.
\<close>

definition exit_status :: "py_error + 'a \<Rightarrow> int" where
  "exit_status r = (case r of Inl _ \<Rightarrow> 1 | Inr _ \<Rightarrow> 0)"

section \<open>Vocabulary of the statements\<close>

text \<open>
  The three character classes of the pattern, and what the pattern extracts read off
  deterministically: \<open>label_groups\<close> scans the string once from the left. It is shown
  below to agree with the backtracking matcher on \<open>label_pattern\<close>.
\<close>

definition digit_cls :: cls where
  "digit_cls = Ranges [(CHR ''0'', CHR ''9'')]"
definition hex_cls :: cls where
  "hex_cls = Ranges [(CHR ''0'', CHR ''9''), (CHR ''a'', CHR ''f'')]"
definition dir_cls :: cls where
  "dir_cls = NotChars ''/''"

definition tail_pattern :: re where
  "tail_pattern =
     Seq (Group 2 (Plus (Atom digit_cls)))
    (Seq (Atom (Lit CHR ''-''))
    (Seq (Group 3 (Plus (Atom hex_cls)))
    (Seq (Atom (Lit CHR '' ''))
         (Star (Atom Dot)))))"

definition tail_groups :: "string \<Rightarrow> (string \<times> string) option" where
  "tail_groups s =
     (if takeWhile (cls_ok digit_cls) s = [] then None
      else case dropWhile (cls_ok digit_cls) s of
             [] \<Rightarrow> None
           | y # s3 \<Rightarrow>
               if y \<noteq> CHR ''-'' \<or> takeWhile (cls_ok hex_cls) s3 = [] then None
               else (case dropWhile (cls_ok hex_cls) s3 of
                       [] \<Rightarrow> None
                     | z # _ \<Rightarrow>
                         if z = CHR '' ''
                         then Some (takeWhile (cls_ok digit_cls) s, takeWhile (cls_ok hex_cls) s3)
                         else None))"

definition label_groups :: "string \<Rightarrow> (string option \<times> string \<times> string) option" where
  "label_groups s =
     (case (if takeWhile (cls_ok dir_cls) s = [] then None
            else case dropWhile (cls_ok dir_cls) s of [] \<Rightarrow> None | _ # r \<Rightarrow> tail_groups r) of
        Some (num, hx) \<Rightarrow> Some (Some (takeWhile (cls_ok dir_cls) s @ ''/''), num, hx)
      | None \<Rightarrow>
          (case tail_groups s of
             Some (num, hx) \<Rightarrow> Some (None, num, hx)
           | None \<Rightarrow> None))"

text \<open>
  A result entry the Transformer can process: a dict whose \<^verbatim>\<open>command\<close> is a string that
  matches the label pattern and whose \<^verbatim>\<open>times\<close> is a list. A report is well formed when
  its \<^verbatim>\<open>results\<close> is a list of such entries, which is the shape of the benchmarking
  tool's export for executables named by the label convention.
\<close>

definition well_formed_row :: "'n json \<Rightarrow> bool" where
  "well_formed_row row =
     (case getitem row ''command'' of
        Inr (JStr s) \<Rightarrow>
          (case re_match label_pattern s of
             None \<Rightarrow> False
           | Some _ \<Rightarrow> (case getitem row ''times'' of Inr (JArr _) \<Rightarrow> True | _ \<Rightarrow> False))
      | _ \<Rightarrow> False)"

definition row_times :: "'n json \<Rightarrow> 'n json list" where
  "row_times row = (case getitem row ''times'' of Inr (JArr ts) \<Rightarrow> ts | _ \<Rightarrow> [])"

definition report_rows :: "'n json \<Rightarrow> 'n json list" where
  "report_rows input = (case getitem input ''results'' of Inr (JArr rows) \<Rightarrow> rows | _ \<Rightarrow> [])"

definition well_formed_report :: "'n json \<Rightarrow> bool" where
  "well_formed_report input =
     (case getitem input ''results'' of
        Inr (JArr rows) \<Rightarrow> list_all well_formed_row rows
      | _ \<Rightarrow> False)"

text \<open>Concrete inputs for the examples.\<close>

definition example_walk :: "commit list" where
  "example_walk =
     [\<lparr>hex = ''c0ffee0123456789abcdef0123456789abcdef01'', message = ''Fix the pager''\<rparr>,
      \<lparr>hex = ''beef456789abcdef0123456789abcdef01234567'', message = ''Initial commit''\<rparr>]"

definition example_repo :: repository where
  "example_repo = [''master'' \<mapsto> example_walk]"

definition example_command :: string where
  "example_command = ''bin/003-abc123 < in.diff > /dev/null''"

definition example_fields :: "(string \<times> rat json) list" where
  "example_fields =
     [(''command'', JStr example_command),
      (''mean'', JNum (11 / 10)),
      (''times'', JArr [JNum 1, JNum (6 / 5)])]"

definition known_command :: string where
  "known_command = ''bin/004-c0ffee0123456789abcdef0123456789abcdef01 < in.diff > /dev/null''"

definition known_fields :: "(string \<times> rat json) list" where
  "known_fields = [(''command'', JStr known_command), (''times'', JArr [JNum 2])]"

definition example_report :: "rat json" where
  "example_report = JObj [(''results'', JArr [JObj example_fields, JObj known_fields])]"

definition mytool_row :: "rat json" where
  "mytool_row = JObj [(''command'', JStr ''mytool''), (''times'', JArr [JNum 1])]"

definition bare_row :: "rat json" where
  "bare_row = JObj [(''command'', JStr ''003-abc123''), (''times'', JArr [JNum 1])]"

definition example_os :: "int \<Rightarrow> os" where
  "example_os retcode =
     \<lparr>listdir =
        (\<lambda>d. if d = ''bin'' then Inr [''002-beef'', ''010-cafe'', ''001-f00d''] else Inl OSError),
      call = (\<lambda>cmd. Inr retcode)\<rparr>"

definition example_args :: args where
  "example_args =
     \<lparr>input_file = ''in.diff'', executables_dir = ''bin'', output_file = ''out.json''\<rparr>"

section \<open>The matcher on the label pattern\<close>

declare ms.simps [simp del]

lemma ms_atom_Nil: "ms (Atom k) ([], c) = []"
  by (simp add: ms.simps(1))

lemma ms_atom_Cons: "ms (Atom k) (x # xs, c) = (if cls_ok k x then [(xs, c)] else [])"
  by (simp add: ms.simps(1))

lemma ms_star_atom_Nil: "ms (Star (Atom k)) ([], c) = [([], c)]"
  by (subst ms.simps(4)) (simp add: ms_atom_Nil)

lemma ms_star_atom_Cons:
  "ms (Star (Atom k)) (x # xs, c) =
     (if cls_ok k x then ms (Star (Atom k)) (xs, c) @ [(x # xs, c)] else [(x # xs, c)])"
  by (subst ms.simps(4)) (simp add: ms_atom_Cons)

lemma star_then:
  assumes "\<And>x xs c. cls_ok k x \<Longrightarrow> f (x # xs, c) = []"
  shows "concat (map f (ms (Star (Atom k)) (s, c))) = f (dropWhile (cls_ok k) s, c)"
proof (induction s)
  case Nil
  show ?case by (simp add: ms_star_atom_Nil)
next
  case (Cons x xs)
  show ?case
  proof (cases "cls_ok k x")
    case True
    then show ?thesis using Cons assms[OF True] by (simp add: ms_star_atom_Cons)
  next
    case False
    then show ?thesis by (simp add: ms_star_atom_Cons)
  qed
qed

lemma ms_plus_atom_Nil: "ms (Plus (Atom k)) ([], c) = []"
  by (simp add: Plus_def ms.simps(2) ms_atom_Nil)

lemma ms_plus_atom_Cons:
  "ms (Plus (Atom k)) (x # xs, c) = (if cls_ok k x then ms (Star (Atom k)) (xs, c) else [])"
  by (simp add: Plus_def ms.simps(2) ms_atom_Cons)

lemma plus_then:
  assumes "\<And>x xs c. cls_ok k x \<Longrightarrow> f (x # xs, c) = []"
  shows "concat (map f (ms (Plus (Atom k)) (s, c))) =
           (if takeWhile (cls_ok k) s = [] then [] else f (dropWhile (cls_ok k) s, c))"
proof (cases s)
  case Nil
  then show ?thesis by (simp add: ms_plus_atom_Nil)
next
  case (Cons x xs)
  then show ?thesis using star_then[of k f xs c, OF assms] by (simp add: ms_plus_atom_Cons)
qed

lemma ms_star_atom_hd: "\<exists>rest. ms (Star (Atom k)) (s, c) = (dropWhile (cls_ok k) s, c) # rest"
proof (induction s)
  case Nil
  show ?case by (simp add: ms_star_atom_Nil)
next
  case (Cons x xs)
  then show ?case by (auto simp add: ms_star_atom_Cons)
qed

lemma take_length_dropWhile:
  "take (length s - length (dropWhile P s)) s = takeWhile P s"
  by (metis append_eq_conv_conj length_append add_diff_cancel_right' takeWhile_dropWhile_id)

lemma ms_lit_seq:
  "ms (Seq (Atom (Lit a)) r) (s, c) =
     (case s of [] \<Rightarrow> [] | y # ys \<Rightarrow> if y = a then ms r (ys, c) else [])"
  by (cases s) (simp_all add: ms.simps(2) ms_atom_Nil ms_atom_Cons)

lemma group_plus_then_lit:
  assumes "\<not> cls_ok k a"
  shows "ms (Seq (Group n (Plus (Atom k))) (Seq (Atom (Lit a)) r)) (s, c) =
           (if takeWhile (cls_ok k) s = [] then []
            else case dropWhile (cls_ok k) s of
                   [] \<Rightarrow> []
                 | y # ys \<Rightarrow> if y = a then ms r (ys, c(n \<mapsto> takeWhile (cls_ok k) s)) else [])"
proof -
  let ?g = "\<lambda>(s', c'). (s', c'(n \<mapsto> take (length s - length s') s))"
  let ?f = "\<lambda>st. ms (Seq (Atom (Lit a)) r) (?g st)"
  have f0: "?f (x # xs, c') = []" if "cls_ok k x" for x xs c'
    using that assms by (auto simp add: ms_lit_seq)
  have g: "?g (dropWhile (cls_ok k) s, c) = (dropWhile (cls_ok k) s, c(n \<mapsto> takeWhile (cls_ok k) s))"
    by (simp add: take_length_dropWhile)
  have "ms (Seq (Group n (Plus (Atom k))) (Seq (Atom (Lit a)) r)) (s, c)
          = concat (map ?f (ms (Plus (Atom k)) (s, c)))"
    by (simp add: ms.simps(2) ms.simps(5) comp_def)
  also have "\<dots> = (if takeWhile (cls_ok k) s = [] then [] else ?f (dropWhile (cls_ok k) s, c))"
    by (rule plus_then) (rule f0)
  also have "\<dots> = (if takeWhile (cls_ok k) s = [] then []
            else case dropWhile (cls_ok k) s of
                   [] \<Rightarrow> []
                 | y # ys \<Rightarrow> if y = a then ms r (ys, c(n \<mapsto> takeWhile (cls_ok k) s)) else [])"
    by (simp only: g ms_lit_seq)
  finally show ?thesis .
qed

lemma group_plus_lit:
  assumes "\<not> cls_ok k a"
  shows "ms (Group n (Seq (Plus (Atom k)) (Atom (Lit a)))) (s, c) =
           (if takeWhile (cls_ok k) s = [] then []
            else case dropWhile (cls_ok k) s of
                   [] \<Rightarrow> []
                 | y # ys \<Rightarrow> if y = a then [(ys, c(n \<mapsto> takeWhile (cls_ok k) s @ [a]))] else [])"
proof -
  let ?f = "ms (Atom (Lit a))"
  have f0: "?f (x # xs, c') = []" if "cls_ok k x" for x xs c'
    using that assms by (auto simp add: ms_atom_Cons)
  have "ms (Seq (Plus (Atom k)) (Atom (Lit a))) (s, c) = concat (map ?f (ms (Plus (Atom k)) (s, c)))"
    by (simp add: ms.simps(2))
  also have "\<dots> = (if takeWhile (cls_ok k) s = [] then [] else ?f (dropWhile (cls_ok k) s, c))"
    by (rule plus_then) (rule f0)
  finally have 1: "ms (Seq (Plus (Atom k)) (Atom (Lit a))) (s, c) =
     (if takeWhile (cls_ok k) s = [] then [] else ?f (dropWhile (cls_ok k) s, c))" .
  have 2: "take (length s - length ys) s = takeWhile (cls_ok k) s @ [a]"
    if "dropWhile (cls_ok k) s = a # ys" for ys
  proof -
    have "s = (takeWhile (cls_ok k) s @ [a]) @ ys"
      using that takeWhile_dropWhile_id[of "cls_ok k" s] by simp
    then show ?thesis
      by (metis append_eq_conv_conj length_append add_diff_cancel_right')
  qed
  show ?thesis
  proof (cases "dropWhile (cls_ok k) s")
    case Nil
    then show ?thesis
      by (simp add: ms.simps(5) 1 ms_atom_Nil del: dropWhile_eq_Nil_conv)
  next
    case (Cons y ys)
    then show ?thesis
      using 2[of ys] by (simp add: ms.simps(5) 1 ms_atom_Cons)
  qed
qed

lemma label_pattern_split: "label_pattern =
   Seq (Opt (Group 1 (Seq (Plus (Atom dir_cls)) (Atom (Lit CHR ''/''))))) tail_pattern"
  by (simp add: label_pattern_def tail_pattern_def digit_cls_def hex_cls_def dir_cls_def)

lemma not_digit_minus: "\<not> cls_ok digit_cls CHR ''-''"
  by (simp add: digit_cls_def less_eq_char_def)

lemma not_hex_space: "\<not> cls_ok hex_cls CHR '' ''"
  by (simp add: hex_cls_def less_eq_char_def)

lemma not_dir_slash: "\<not> cls_ok dir_cls CHR ''/''"
  by (simp add: dir_cls_def)

lemma ms_tail:
  "ms tail_pattern (s, c) =
     (case tail_groups s of
        None \<Rightarrow> []
      | Some (num, hx) \<Rightarrow>
          ms (Star (Atom Dot))
             (tl (dropWhile (cls_ok hex_cls) (tl (dropWhile (cls_ok digit_cls) s))),
              c(2 \<mapsto> num, 3 \<mapsto> hx)))"
  unfolding tail_pattern_def tail_groups_def
    group_plus_then_lit[OF not_digit_minus] group_plus_then_lit[OF not_hex_space]
  by (simp split: list.split del: dropWhile_eq_Nil_conv)

lemma ms_tail_None: "tail_groups s = None \<Longrightarrow> ms tail_pattern (s, c) = []"
  by (simp add: ms_tail)

lemma ms_tail_Some:
  assumes "tail_groups s = Some (num, hx)"
  shows "\<exists>s' rest. ms tail_pattern (s, c) = (s', c(2 \<mapsto> num, 3 \<mapsto> hx)) # rest"
proof -
  obtain rest where
    "ms (Star (Atom Dot))
       (tl (dropWhile (cls_ok hex_cls) (tl (dropWhile (cls_ok digit_cls) s))),
        c(2 \<mapsto> num, 3 \<mapsto> hx))
     = (dropWhile (cls_ok Dot)
          (tl (dropWhile (cls_ok hex_cls) (tl (dropWhile (cls_ok digit_cls) s)))),
        c(2 \<mapsto> num, 3 \<mapsto> hx)) # rest"
    using ms_star_atom_hd by blast
  then show ?thesis using assms by (simp add: ms_tail)
qed

lemma ms_dir:
  "ms (Group n (Seq (Plus (Atom dir_cls)) (Atom (Lit CHR ''/'')))) (s, c) =
     (if takeWhile (cls_ok dir_cls) s = [] then []
      else case dropWhile (cls_ok dir_cls) s of
             [] \<Rightarrow> []
           | y # r \<Rightarrow> [(r, c(n \<mapsto> takeWhile (cls_ok dir_cls) s @ ''/''))])"
proof -
  have "y = CHR ''/''" if "dropWhile (cls_ok dir_cls) s = y # r" for y r
  proof -
    have "\<not> cls_ok dir_cls (hd (dropWhile (cls_ok dir_cls) s))"
      by (rule hd_dropWhile) (simp add: that)
    then show ?thesis unfolding that by (simp add: dir_cls_def)
  qed
  then show ?thesis
    unfolding group_plus_lit[OF not_dir_slash]
    by (simp split: list.split del: dropWhile_eq_Nil_conv)
qed

lemma re_match_label:
  "map_option groups (re_match label_pattern s) =
     map_option (\<lambda>(d, num, hx). (d, Some num, Some hx)) (label_groups s)"
proof -
  let ?d = "takeWhile (cls_ok dir_cls) s"
  have ms: "ms label_pattern (s, Map.empty) =
      concat (map (ms tail_pattern)
        (ms (Group 1 (Seq (Plus (Atom dir_cls)) (Atom (Lit CHR ''/'')))) (s, Map.empty)))
      @ ms tail_pattern (s, Map.empty)"
    by (simp add: label_pattern_split ms.simps(2) ms.simps(3))
  show ?thesis
  proof (cases "if ?d = [] then None
            else case dropWhile (cls_ok dir_cls) s of [] \<Rightarrow> None | _ # r \<Rightarrow> tail_groups r")
    case None
    then have 1: "concat (map (ms tail_pattern)
        (ms (Group 1 (Seq (Plus (Atom dir_cls)) (Atom (Lit CHR ''/'')))) (s, Map.empty))) = []"
      by (simp add: ms_dir ms_tail_None split: if_splits list.splits
          del: dropWhile_eq_Nil_conv)
    show ?thesis
    proof (cases "tail_groups s")
      case None
      with \<open>(if ?d = [] then None else _) = None\<close> show ?thesis
        by (simp add: re_match_def ms 1 ms_tail_None label_groups_def del: One_nat_def)
    next
      case (Some p)
      obtain num hx where p: "p = (num, hx)" by (cases p)
      obtain s' rest where "ms tail_pattern (s, Map.empty) = (s', [2 \<mapsto> num, 3 \<mapsto> hx]) # rest"
        using ms_tail_Some[of s num hx Map.empty] Some p by auto
      with \<open>(if ?d = [] then None else _) = None\<close> Some p show ?thesis
        by (simp add: re_match_def ms 1 label_groups_def groups_def del: One_nat_def)
    qed
  next
    case (Some p)
    obtain num hx where p: "p = (num, hx)" by (cases p)
    from Some obtain y r where d: "?d \<noteq> []" "dropWhile (cls_ok dir_cls) s = y # r"
      and t: "tail_groups r = Some (num, hx)"
      by (auto simp add: p split: if_splits list.splits)
    obtain s' rest where
      "ms tail_pattern (r, [1 \<mapsto> ?d @ ''/'']) = (s', [1 \<mapsto> ?d @ ''/'', 2 \<mapsto> num, 3 \<mapsto> hx]) # rest"
      using ms_tail_Some[OF t] by blast
    with d Some p show ?thesis
      by (simp add: re_match_def ms ms_dir label_groups_def groups_def
          del: dropWhile_eq_Nil_conv One_nat_def)
  qed
qed

lemma tail_groups_shape:
  assumes "tail_groups s = Some (num, hx)"
  shows "\<exists>rest. s = num @ ''-'' @ hx @ '' '' @ rest"
    and "num \<noteq> []" and "hx \<noteq> []"
    and "\<forall>x\<in>set num. cls_ok digit_cls x" and "\<forall>x\<in>set hx. cls_ok hex_cls x"
proof -
  from assms obtain s3 s5 where
    n: "num = takeWhile (cls_ok digit_cls) s" "num \<noteq> []"
    and d1: "dropWhile (cls_ok digit_cls) s = CHR ''-'' # s3"
    and h: "hx = takeWhile (cls_ok hex_cls) s3" "hx \<noteq> []"
    and d2: "dropWhile (cls_ok hex_cls) s3 = CHR '' '' # s5"
    by (auto simp add: tail_groups_def split: if_splits list.splits simp del: dropWhile_eq_Nil_conv)
  have "s = num @ CHR ''-'' # s3"
    using takeWhile_dropWhile_id[of "cls_ok digit_cls" s] n d1 by simp
  moreover have "s3 = hx @ CHR '' '' # s5"
    using takeWhile_dropWhile_id[of "cls_ok hex_cls" s3] h d2 by simp
  ultimately show "\<exists>rest. s = num @ ''-'' @ hx @ '' '' @ rest" by simp
  show "num \<noteq> []" "hx \<noteq> []" by fact+
  show "\<forall>x\<in>set num. cls_ok digit_cls x" using n(1) by (auto dest: set_takeWhileD)
  show "\<forall>x\<in>set hx. cls_ok hex_cls x" using h(1) by (auto dest: set_takeWhileD)
qed

lemma tail_groups_intro:
  assumes "num \<noteq> []" "\<forall>x\<in>set num. cls_ok digit_cls x" "hx \<noteq> []" "\<forall>x\<in>set hx. cls_ok hex_cls x"
  shows "tail_groups (num @ ''-'' @ hx @ '' '' @ rest) = Some (num, hx)"
proof -
  have 1: "takeWhile (cls_ok digit_cls) (num @ CHR ''-'' # t) = num" for t
    using assms(2) not_digit_minus by (simp add: takeWhile_tail)
  have 2: "dropWhile (cls_ok digit_cls) (num @ CHR ''-'' # t) = CHR ''-'' # t" for t
    using assms(2) not_digit_minus by simp
  have 3: "takeWhile (cls_ok hex_cls) (hx @ CHR '' '' # t) = hx" for t
    using assms(4) not_hex_space by (simp add: takeWhile_tail)
  have 4: "dropWhile (cls_ok hex_cls) (hx @ CHR '' '' # t) = CHR '' '' # t" for t
    using assms(4) not_hex_space by simp
  show ?thesis using assms(1,3) by (simp add: tail_groups_def 1 2 3 4)
qed

lemma label_groups_shape:
  assumes "label_groups s = Some (d, num, hx)"
  shows "\<exists>rest. s = (case d of None \<Rightarrow> [] | Some p \<Rightarrow> p) @ num @ ''-'' @ hx @ '' '' @ rest"
    and "num \<noteq> []" and "hx \<noteq> []"
    and "\<forall>x\<in>set num. cls_ok digit_cls x" and "\<forall>x\<in>set hx. cls_ok hex_cls x"
proof -
  let ?p = "takeWhile (cls_ok dir_cls) s"
  from assms consider
    (dir) y r where "d = Some (?p @ ''/'')" "dropWhile (cls_ok dir_cls) s = y # r"
      "tail_groups r = Some (num, hx)"
    | (nodir) "d = None" "tail_groups s = Some (num, hx)"
    by (auto simp add: label_groups_def split: if_splits list.splits option.splits
        simp del: dropWhile_eq_Nil_conv)
  then have "(\<exists>rest. s = (case d of None \<Rightarrow> [] | Some p \<Rightarrow> p) @ num @ ''-'' @ hx @ '' '' @ rest)
     \<and> num \<noteq> [] \<and> hx \<noteq> [] \<and> (\<forall>x\<in>set num. cls_ok digit_cls x) \<and> (\<forall>x\<in>set hx. cls_ok hex_cls x)"
  proof cases
    case dir
    have "\<not> cls_ok dir_cls (hd (dropWhile (cls_ok dir_cls) s))"
      by (rule hd_dropWhile) (simp add: dir(2))
    then have y: "y = CHR ''/''" unfolding dir(2) by (simp add: dir_cls_def)
    have "s = ?p @ CHR ''/'' # r"
      using takeWhile_dropWhile_id[of "cls_ok dir_cls" s] dir(2) y by simp
    moreover obtain rest where "r = num @ ''-'' @ hx @ '' '' @ rest"
      using tail_groups_shape(1)[OF dir(3)] by blast
    ultimately have "s = (?p @ ''/'') @ num @ ''-'' @ hx @ '' '' @ rest" by simp
    then show ?thesis using tail_groups_shape(2-5)[OF dir(3)] dir(1) by auto
  next
    case nodir
    then show ?thesis using tail_groups_shape[OF nodir(2)] by simp
  qed
  then show "\<exists>rest. s = (case d of None \<Rightarrow> [] | Some p \<Rightarrow> p) @ num @ ''-'' @ hx @ '' '' @ rest"
    and "num \<noteq> []" and "hx \<noteq> []"
    and "\<forall>x\<in>set num. cls_ok digit_cls x" and "\<forall>x\<in>set hx. cls_ok hex_cls x"
    by blast+
qed

lemma label_groups_dir:
  assumes "p \<noteq> []" "CHR ''/'' \<notin> set p"
    and "num \<noteq> []" "\<forall>x\<in>set num. cls_ok digit_cls x" "hx \<noteq> []" "\<forall>x\<in>set hx. cls_ok hex_cls x"
  shows "label_groups (p @ ''/'' @ num @ ''-'' @ hx @ '' '' @ rest) = Some (Some (p @ ''/''), num, hx)"
proof -
  have p: "\<forall>x\<in>set p. cls_ok dir_cls x"
    using assms(2) by (auto simp add: dir_cls_def)
  have 1: "takeWhile (cls_ok dir_cls) (p @ CHR ''/'' # t) = p" for t
    using p not_dir_slash by (simp add: takeWhile_tail)
  have 2: "dropWhile (cls_ok dir_cls) (p @ CHR ''/'' # t) = CHR ''/'' # t" for t
    using p not_dir_slash by simp
  show ?thesis
    using assms(1) tail_groups_intro[OF assms(3-6), of rest]
    by (simp add: label_groups_def 1 2)
qed

lemma re_match_groups:
  "re_match label_pattern s = Some m \<Longrightarrow>
     \<exists>d num hx. label_groups s = Some (d, num, hx) \<and> groups m = (d, Some num, Some hx)"
  using re_match_label[of s] by (cases "label_groups s") auto

lemma re_match_None: "(re_match label_pattern s = None) = (label_groups s = None)"
  using re_match_label[of s] by (cases "label_groups s"; cases "re_match label_pattern s") auto

lemma not_digit_space: "\<not> cls_ok digit_cls CHR '' ''"
  by (simp add: digit_cls_def less_eq_char_def)

lemma no_space_no_match:
  assumes "CHR '' '' \<notin> set s"
  shows "re_match label_pattern s = None"
proof (rule ccontr)
  assume "re_match label_pattern s \<noteq> None"
  then obtain d num hx where "label_groups s = Some (d, num, hx)"
    using re_match_None[of s] by auto
  from label_groups_shape(1)[OF this] assms show False by auto
qed

text \<open>The three classes, spelled out.\<close>

lemma cls_ok_digit: "cls_ok digit_cls x = (CHR ''0'' \<le> x \<and> x \<le> CHR ''9'')"
  by (simp add: digit_cls_def)

lemma cls_ok_hex:
  "cls_ok hex_cls x = (CHR ''0'' \<le> x \<and> x \<le> CHR ''9'' \<or> CHR ''a'' \<le> x \<and> x \<le> CHR ''f'')"
  by (simp add: hex_cls_def)

lemma cls_ok_dir: "cls_ok dir_cls x = (x \<noteq> CHR ''/'')"
  by (simp add: dir_cls_def)

text \<open>
  Two commands off the convention. The optional directory is tried first, so a label
  in the text after the first \<^verbatim>\<open>/\<close> wins over one at the start; and a directory of two
  components does not match at all, the match being anchored at the start.
\<close>

lemma directory_tried_first:
  "map_option groups (re_match label_pattern ''1-a b/2-c d'')
     = Some (Some ''1-a b/'', Some ''2'', Some ''c'')"
  by (simp add: re_match_label label_groups_def tail_groups_def dir_cls_def digit_cls_def
      hex_cls_def less_eq_char_def)

lemma nested_directory_no_match: "re_match label_pattern ''a/b/003-abc123 < in'' = None"
  by (simp add: re_match_None label_groups_def tail_groups_def dir_cls_def digit_cls_def
      hex_cls_def less_eq_char_def)

section \<open>The loops of the Transformer\<close>

lemma output_row_Inr:
  assumes "map_of d ''times'' = Some v"
  shows "\<exists>r. output_row c2m d num commit t = Inr r"
  using assms by (simp add: output_row_def delitem_def setitem_def update_conv' Let_def)

lemma output_row_fields:
  assumes "output_row c2m d num commit t = Inr r"
  shows "map_of r ''time'' = Some t"
    and "map_of r ''times'' = None"
    and "map_of r ''commit'' = Some (JStr (format_group num @ ''-'' @ format_group commit))"
    and "map_of r ''message'' = Some (JStr (get_message c2m commit))"
    and "k \<notin> {''times'', ''time'', ''commit'', ''message''} \<Longrightarrow> map_of r k = map_of d k"
  using assms
  by (auto simp add: output_row_def delitem_def setitem_def update_conv' delete_conv' Let_def
      split: option.splits)

lemma times_loop_ok:
  assumes "map_of d ''times'' = Some v"
  shows "\<exists>recs. list_all2 (\<lambda>t r. output_row c2m d num commit t = Inr r) ts recs \<and>
           (\<forall>output. times_loop c2m d num commit ts output = Inr (output @ map JObj recs))"
proof (induction ts)
  case Nil
  show ?case by simp
next
  case (Cons t ts)
  obtain r where r: "output_row c2m d num commit t = Inr r"
    using output_row_Inr[OF assms] by blast
  from Cons obtain recs where
    recs: "list_all2 (\<lambda>t r. output_row c2m d num commit t = Inr r) ts recs"
      "\<And>output. times_loop c2m d num commit ts output = Inr (output @ map JObj recs)"
    by blast
  have "list_all2 (\<lambda>t r. output_row c2m d num commit t = Inr r) (t # ts) (r # recs)"
    using r recs(1) by simp
  moreover have "times_loop c2m d num commit (t # ts) out
      = Inr (out @ map JObj (r # recs))" for out
    using r recs(2) by simp
  ultimately show ?case by blast
qed

lemma process_row_ok:
  assumes "map_of d ''command'' = Some (JStr s)"
    and "re_match label_pattern s = Some m"
    and "map_of d ''times'' = Some (JArr ts)"
  shows "\<exists>dir num hx recs.
           label_groups s = Some (dir, num, hx) \<and>
           list_all2 (\<lambda>t r. output_row c2m d (Some num) (Some hx) t = Inr r) ts recs \<and>
           (\<forall>output. process_row c2m (JObj d) output = Inr (output @ map JObj recs))"
proof -
  obtain dir num hx where g: "label_groups s = Some (dir, num, hx)"
    "groups m = (dir, Some num, Some hx)"
    using re_match_groups[OF assms(2)] by blast
  obtain recs where
    recs: "list_all2 (\<lambda>t r. output_row c2m d (Some num) (Some hx) t = Inr r) ts recs"
      "\<And>output. times_loop c2m d (Some num) (Some hx) ts output = Inr (output @ map JObj recs)"
    using times_loop_ok[OF assms(3)] by blast
  have "process_row c2m (JObj d) out = Inr (out @ map JObj recs)" for out
    using assms g(2) recs(2) by (simp add: process_row_def getitem_def iter_def)
  with g(1) recs(1) show ?thesis by blast
qed

lemma getitem_JObj:
  "getitem row k = Inr v \<Longrightarrow> \<exists>d. row = JObj d \<and> map_of d k = Some v"
  by (cases row) (auto simp add: getitem_def split: option.splits)

lemma well_formed_rowD:
  assumes "well_formed_row row"
  shows "\<exists>d s m ts. row = JObj d \<and> map_of d ''command'' = Some (JStr s) \<and>
           re_match label_pattern s = Some m \<and> map_of d ''times'' = Some (JArr ts) \<and>
           row_times row = ts"
proof -
  from assms obtain s where c: "getitem row ''command'' = Inr (JStr s)"
    by (auto simp add: well_formed_row_def split: sum.splits json.splits)
  with assms obtain m where m: "re_match label_pattern s = Some m"
    by (auto simp add: well_formed_row_def split: option.splits)
  with assms c obtain ts where t: "getitem row ''times'' = Inr (JArr ts)"
    by (auto simp add: well_formed_row_def split: sum.splits json.splits)
  from c obtain d where d: "row = JObj d" "map_of d ''command'' = Some (JStr s)"
    using getitem_JObj by blast
  from t d(1) have "map_of d ''times'' = Some (JArr ts)"
    using getitem_JObj by blast
  moreover have "row_times row = ts" using t by (simp add: row_times_def)
  ultimately show ?thesis using d m by blast
qed

lemma well_formed_row_ok:
  assumes "well_formed_row row"
  shows "\<exists>recs. length recs = length (row_times row) \<and>
           list_all2 (\<lambda>t r. getitem r ''time'' = Inr t) (row_times row) recs \<and>
           (\<forall>output. process_row c2m row output = Inr (output @ recs))"
proof -
  obtain d s m ts where w: "row = JObj d" "map_of d ''command'' = Some (JStr s)"
    "re_match label_pattern s = Some m" "map_of d ''times'' = Some (JArr ts)" "row_times row = ts"
    using well_formed_rowD[OF assms] by blast
  obtain num hx recs where
    r: "list_all2 (\<lambda>t r. output_row c2m d (Some num) (Some hx) t = Inr r) ts recs"
      "\<And>output. process_row c2m (JObj d) output = Inr (output @ map JObj recs)"
    using process_row_ok[OF w(2,3,4)] by blast
  have "list_all2 (\<lambda>t r. getitem r ''time'' = Inr t) ts (map JObj recs)"
    using r(1) by (auto simp add: list_all2_conv_all_nth getitem_def output_row_fields(1))
  moreover have "length (map JObj recs) = length ts"
    using r(1) by (simp add: list_all2_lengthD)
  ultimately show ?thesis using r(2) w(1,5) by blast
qed

lemma results_loop_ok:
  assumes "list_all well_formed_row rows"
  shows "\<exists>recss.
           list_all2 (\<lambda>row recs. length recs = length (row_times row) \<and>
                        list_all2 (\<lambda>t r. getitem r ''time'' = Inr t) (row_times row) recs \<and>
                        process_row c2m row [] = Inr recs) rows recss \<and>
           (\<forall>output. results_loop c2m rows output = Inr (output @ concat recss))"
  using assms
proof (induction rows)
  case Nil
  show ?case by simp
next
  case (Cons row rows)
  then have wf: "well_formed_row row" and "list_all well_formed_row rows" by simp_all
  with Cons.IH obtain recss where
    IH: "list_all2 (\<lambda>row recs. length recs = length (row_times row) \<and>
                        list_all2 (\<lambda>t r. getitem r ''time'' = Inr t) (row_times row) recs \<and>
                        process_row c2m row [] = Inr recs) rows recss"
      "\<And>output. results_loop c2m rows output = Inr (output @ concat recss)"
    by blast
  obtain recs where recs: "length recs = length (row_times row)"
      "list_all2 (\<lambda>t r. getitem r ''time'' = Inr t) (row_times row) recs"
      "\<And>output. process_row c2m row output = Inr (output @ recs)"
    using well_formed_row_ok[OF wf] by blast
  have "process_row c2m row [] = Inr recs" using recs(3)[of "[]"] by simp
  with IH(1) recs(1,2) have
    "list_all2 (\<lambda>row recs. length recs = length (row_times row) \<and>
                        list_all2 (\<lambda>t r. getitem r ''time'' = Inr t) (row_times row) recs \<and>
                        process_row c2m row [] = Inr recs) (row # rows) (recs # recss)"
    by simp
  moreover have "results_loop c2m (row # rows) out = Inr (out @ concat (recs # recss))"
    for out
    using recs(3) IH(2) by simp
  ultimately show ?case by blast
qed

lemma transform_ok:
  assumes "repo ''master'' = Some walk" and "well_formed_report input"
  shows "\<exists>recss.
           transform_benchmark_data repo input = Inr (JArr (concat recss)) \<and>
           list_all2 (\<lambda>row recs. length recs = length (row_times row) \<and>
                        list_all2 (\<lambda>t r. getitem r ''time'' = Inr t) (row_times row) recs \<and>
                        process_row (commit2message walk) row [] = Inr recs)
                     (report_rows input) recss"
proof -
  obtain rows where rows: "getitem input ''results'' = Inr (JArr rows)"
      "list_all well_formed_row rows"
    using assms(2) by (auto simp add: well_formed_report_def split: sum.splits json.splits)
  obtain recss where
    r: "list_all2 (\<lambda>row recs. length recs = length (row_times row) \<and>
                        list_all2 (\<lambda>t r. getitem r ''time'' = Inr t) (row_times row) recs \<and>
                        process_row (commit2message walk) row [] = Inr recs) rows recss"
      "\<And>output. results_loop (commit2message walk) rows output = Inr (output @ concat recss)"
    using results_loop_ok[OF rows(2)] by blast
  have "transform_benchmark_data repo input = Inr (JArr (concat recss))"
    using assms(1) rows(1) r(2)[of "[]"]
    by (simp add: transform_benchmark_data_def iter_def)
  moreover have "report_rows input = rows" using rows(1) by (simp add: report_rows_def)
  ultimately show ?thesis using r(1) by auto
qed

section \<open>The Runner's invocation\<close>

lemma str_runs: "str_nat runs = ''5''"
  by code_simp

lemma hyperfine_args_fixed:
  "take 6 (hyperfine_args a entries) =
     [''hyperfine'', ''--runs'', ''5'', ''--export-json'', output_file a, ''--ignore-failure'']"
  by (simp add: hyperfine_args_def str_runs)

lemma invocations_cases:
  "fst (hyperfine_commits sys a) = [] \<or>
   (\<exists>entries. fst (hyperfine_commits sys a) = [hyperfine_args a entries])"
  by (cases "listdir sys (executables_dir a)") (auto simp add: hyperfine_commits_def Let_def)

lemma example_invocations:
  "fst (hyperfine_commits (example_os rc) example_args) =
     [[''hyperfine'', ''--runs'', ''5'', ''--export-json'', ''out.json'', ''--ignore-failure'',
       ''bin/001-f00d < in.diff > /dev/null'',
       ''bin/002-beef < in.diff > /dev/null'',
       ''bin/010-cafe < in.diff > /dev/null'']]"
  by (simp add: hyperfine_commits_def example_os_def example_args_def hyperfine_args_def str_runs
      Let_def)

text \<open>
  Claim C8. Every invocation the Runner builds starts with the tool's name followed by
  \<^verbatim>\<open>--runs 5\<close>, \<^verbatim>\<open>--export-json\<close> with the output file given on the command line, and
  \<^verbatim>\<open>--ignore-failure\<close>. Nothing but the three positional arguments and the directory
  listing enters \<open>hyperfine_args\<close>, and these six arguments do not depend on the listing.
\<close>

theorem fixed_tool_options:
  "(\<forall>cmd\<in>set (fst (hyperfine_commits sys a)).
      take 6 cmd =
        [''hyperfine'', ''--runs'', ''5'', ''--export-json'', output_file a, ''--ignore-failure''])
   \<and> take 6 (hyperfine_args a entries) =
        [''hyperfine'', ''--runs'', ''5'', ''--export-json'', output_file a, ''--ignore-failure'']"
  using invocations_cases[of sys a] hyperfine_args_fixed by auto

theorem fixed_tool_options_witness:
  "length (fst (hyperfine_commits (example_os 0) example_args)) = 1 \<and>
   list_all (\<lambda>cmd. take 6 cmd =
        [''hyperfine'', ''--runs'', ''5'', ''--export-json'', ''out.json'', ''--ignore-failure''])
     (fst (hyperfine_commits (example_os 0) example_args))"
  using fixed_tool_options[of "example_os 0" example_args "[]"]
  by (simp add: list_all_iff example_invocations)

section \<open>The flattened records\<close>

lemma fold_upd_other:
  "k \<notin> hex ` set walk \<Longrightarrow> fold (\<lambda>c m. m(hex c \<mapsto> message c)) walk m0 k = m0 k"
  by (induction walk arbitrary: m0) auto

lemma fold_upd_member:
  "distinct (map hex walk) \<Longrightarrow> c \<in> set walk \<Longrightarrow>
     fold (\<lambda>c m. m(hex c \<mapsto> message c)) walk m0 (hex c) = Some (message c)"
proof (induction walk arbitrary: m0)
  case Nil
  then show ?case by simp
next
  case (Cons a walk)
  show ?case
  proof (cases "c = a")
    case True
    have "hex a \<notin> hex ` set walk" using Cons.prems(1) by auto
    then have "fold (\<lambda>c m. m(hex c \<mapsto> message c)) walk (m0(hex a \<mapsto> message a)) (hex a)
        = (m0(hex a \<mapsto> message a)) (hex a)"
      by (rule fold_upd_other)
    then show ?thesis using True by (simp del: fun_upd_apply add: fun_upd_same)
  next
    case False
    then show ?thesis using Cons by simp
  qed
qed

lemma commit2message_absent:
  "hx \<notin> hex ` set walk \<Longrightarrow> commit2message walk hx = None"
  by (simp add: commit2message_def fold_upd_other)

lemma commit2message_present:
  "distinct (map hex walk) \<Longrightarrow> c \<in> set walk \<Longrightarrow>
     commit2message walk (hex c) = Some (message c)"
  by (simp add: commit2message_def fold_upd_member)

lemma process_row_records:
  assumes "map_of d ''command'' = Some (JStr s)"
    and "re_match label_pattern s = Some m"
    and "map_of d ''times'' = Some (JArr ts)"
  shows "\<exists>dir num hx recs.
           label_groups s = Some (dir, num, hx) \<and> groups m = (dir, Some num, Some hx) \<and>
           length recs = length ts \<and>
           (\<forall>i<length ts. output_row c2m d (Some num) (Some hx) (ts ! i) = Inr (recs ! i)) \<and>
           (\<forall>out. process_row c2m (JObj d) out = Inr (out @ map JObj recs))"
proof -
  obtain dir num hx recs where
    r: "label_groups s = Some (dir, num, hx)"
      "list_all2 (\<lambda>t r. output_row c2m d (Some num) (Some hx) t = Inr r) ts recs"
      "\<And>out. process_row c2m (JObj d) out = Inr (out @ map JObj recs)"
    using process_row_ok[OF assms] by blast
  have "groups m = (dir, Some num, Some hx)"
    using re_match_groups[OF assms(2)] r(1) by auto
  with r show ?thesis by (auto simp add: list_all2_conv_all_nth)
qed

lemma update_absent: "map_of al k = None \<Longrightarrow> AList.update k v al = al @ [(k, v)]"
  by (induction al) (auto split: if_splits)

lemma delete_append: "AList.delete k (xs @ ys) = AList.delete k xs @ AList.delete k ys"
  by (simp add: AList.delete_eq)

lemma output_row_exact:
  assumes "map_of d ''times'' = Some v"
    and "map_of d ''commit'' = None" "map_of d ''message'' = None" "map_of d ''time'' = None"
  shows "output_row c2m d num commit t =
           Inr (AList.delete ''times'' d @
                  [(''commit'', JStr (format_group num @ ''-'' @ format_group commit)),
                   (''message'', JStr (get_message c2m commit)),
                   (''time'', t)])"
proof -
  let ?c = "(''commit'', JStr (format_group num @ ''-'' @ format_group commit))"
  let ?m = "(''message'', JStr (get_message c2m commit))"
  have 1: "setitem d ''commit'' (snd ?c) = d @ [?c]"
    using assms(2) by (simp add: setitem_def update_absent)
  have 2: "setitem (d @ [?c]) ''message'' (snd ?m) = d @ [?c, ?m]"
    using assms(3) by (simp add: setitem_def update_absent map_add_def)
  have 3: "delitem (d @ [?c, ?m]) ''times'' = Inr (AList.delete ''times'' d @ [?c, ?m])"
    using assms(1) by (simp add: delitem_def map_add_def delete_append)
  have 4: "setitem (AList.delete ''times'' d @ [?c, ?m]) ''time'' t
             = AList.delete ''times'' d @ [?c, ?m, (''time'', t)]"
    using assms(4) by (simp add: setitem_def update_absent map_add_def delete_conv')
  show ?thesis
    unfolding output_row_def Let_def using 1 2 3 4 by simp
qed

lemma label_groups_nodir:
  assumes "num \<noteq> []" "\<forall>x\<in>set num. cls_ok digit_cls x" "hx \<noteq> []" "\<forall>x\<in>set hx. cls_ok hex_cls x"
    and "CHR ''/'' \<notin> set rest"
  shows "label_groups (num @ ''-'' @ hx @ '' '' @ rest) = Some (None, num, hx)"
proof -
  define s where "s = num @ ''-'' @ hx @ '' '' @ rest"
  have "\<not> cls_ok digit_cls CHR ''/''" "\<not> cls_ok hex_cls CHR ''/''"
    by (simp_all add: digit_cls_def hex_cls_def less_eq_char_def)
  then have "CHR ''/'' \<notin> set num" "CHR ''/'' \<notin> set hx" using assms(2,4) by auto
  then have "\<forall>x\<in>set s. cls_ok dir_cls x"
    using assms(5) by (auto simp add: dir_cls_def s_def)
  then have d: "dropWhile (cls_ok dir_cls) s = []"
    by (simp only: dropWhile_eq_Nil_conv)
  have t: "tail_groups s = Some (num, hx)"
    unfolding s_def by (rule tail_groups_intro[OF assms(1-4)])
  have "label_groups s = Some (None, num, hx)"
    unfolding label_groups_def d t by simp
  then show ?thesis by (simp only: s_def)
qed

subsection \<open>The examples evaluated\<close>

lemma example_label:
  "label_groups example_command = Some (Some ''bin/'', ''003'', ''abc123'')"
  by (simp add: example_command_def label_groups_def tail_groups_def dir_cls_def digit_cls_def
      hex_cls_def less_eq_char_def)

lemma known_label:
  "label_groups known_command =
     Some (Some ''bin/'', ''004'', ''c0ffee0123456789abcdef0123456789abcdef01'')"
  by (simp add: known_command_def label_groups_def tail_groups_def dir_cls_def digit_cls_def
      hex_cls_def less_eq_char_def)

lemma label_groups_match:
  assumes "label_groups s = Some (dir, num, hx)"
  shows "\<exists>m. re_match label_pattern s = Some m \<and> groups m = (dir, Some num, Some hx)"
  using re_match_label[of s] assms by (cases "re_match label_pattern s") auto

lemma example_log:
  "commit2message example_walk ''abc123'' = None"
  "commit2message example_walk ''c0ffee0123456789abcdef0123456789abcdef01'' = Some ''Fix the pager''"
  by (simp_all add: commit2message_def example_walk_def)

lemma known_fields_simps:
  "map_of known_fields ''command'' = Some (JStr known_command)"
  "map_of known_fields ''times'' = Some (JArr [JNum 2])"
  by (simp_all add: known_fields_def)

lemma example_fields_simps:
  "map_of example_fields ''command'' = Some (JStr example_command)"
  "map_of example_fields ''times'' = Some (JArr [JNum 1, JNum (6 / 5)])"
  by (simp_all add: example_fields_def)

subsection \<open>The records of one entry\<close>

text \<open>
  Claim C1. For a result entry whose \<^verbatim>\<open>command\<close> matches the label pattern, the loop body
  appends one record per sample of \<^verbatim>\<open>times\<close>, in order. The record of sample \<open>i\<close> has
  \<^verbatim>\<open>time\<close> equal to that sample, no \<^verbatim>\<open>times\<close>, a \<^verbatim>\<open>commit\<close> and a \<^verbatim>\<open>message\<close>, and
  every other field of the entry with the entry's value (and no further field). For an
  entry without fields named \<^verbatim>\<open>commit\<close>, \<^verbatim>\<open>message\<close> or \<^verbatim>\<open>time\<close>, as the tool's export
  is, the record is the entry's fields in their order without \<^verbatim>\<open>times\<close>, followed by
  \<^verbatim>\<open>commit\<close>, \<^verbatim>\<open>message\<close> and \<^verbatim>\<open>time\<close>. An entry that has one of these three fields has
  it overwritten in place: they are the fields the record sets.
\<close>

theorem one_record_per_sample:
  assumes "map_of d ''command'' = Some (JStr s)"
    and "re_match label_pattern s = Some m"
    and "map_of d ''times'' = Some (JArr ts)"
  shows "\<exists>recs.
           process_row c2m (JObj d) output = Inr (output @ map JObj recs) \<and>
           length recs = length ts \<and>
           (\<forall>i<length ts.
              map_of (recs ! i) ''time'' = Some (ts ! i) \<and>
              map_of (recs ! i) ''times'' = None \<and>
              map_of (recs ! i) ''commit'' \<noteq> None \<and>
              map_of (recs ! i) ''message'' \<noteq> None \<and>
              (\<forall>k. k \<notin> {''times'', ''time'', ''commit'', ''message''} \<longrightarrow>
                   map_of (recs ! i) k = map_of d k) \<and>
              (map_of d ''commit'' = None \<and> map_of d ''message'' = None \<and>
               map_of d ''time'' = None \<longrightarrow>
                 (\<exists>c msg. recs ! i =
                    AList.delete ''times'' d @
                      [(''commit'', JStr c), (''message'', JStr msg), (''time'', ts ! i)])))"
proof -
  obtain num hx recs where
    r: "length recs = length ts"
      "\<And>i. i < length ts \<Longrightarrow> output_row c2m d (Some num) (Some hx) (ts ! i) = Inr (recs ! i)"
      "\<And>out. process_row c2m (JObj d) out = Inr (out @ map JObj recs)"
    using process_row_records[OF assms, of c2m] by blast
  have "map_of (recs ! i) ''time'' = Some (ts ! i) \<and>
        map_of (recs ! i) ''times'' = None \<and>
        map_of (recs ! i) ''commit'' \<noteq> None \<and>
        map_of (recs ! i) ''message'' \<noteq> None \<and>
        (\<forall>k. k \<notin> {''times'', ''time'', ''commit'', ''message''} \<longrightarrow>
             map_of (recs ! i) k = map_of d k) \<and>
        (map_of d ''commit'' = None \<and> map_of d ''message'' = None \<and>
         map_of d ''time'' = None \<longrightarrow>
           (\<exists>c msg. recs ! i =
              AList.delete ''times'' d @
                [(''commit'', JStr c), (''message'', JStr msg), (''time'', ts ! i)]))"
    if "i < length ts" for i
  proof -
    note o = r(2)[OF that]
    have "\<exists>c msg. recs ! i =
              AList.delete ''times'' d @
                [(''commit'', JStr c), (''message'', JStr msg), (''time'', ts ! i)]"
      if "map_of d ''commit'' = None \<and> map_of d ''message'' = None \<and> map_of d ''time'' = None"
      using output_row_exact[OF assms(3), of c2m "Some num" "Some hx" "ts ! i"] that o by simp
    then show ?thesis using output_row_fields[OF o] by simp
  qed
  with r(1) r(3)[of "output"] show ?thesis by blast
qed

theorem one_record_per_sample_witness:
  "map_of example_fields ''command'' = Some (JStr example_command) \<and>
   (\<exists>m. re_match label_pattern example_command = Some m) \<and>
   map_of example_fields ''times'' = Some (JArr [JNum 1, JNum (6 / 5)]) \<and>
   (\<exists>recs. process_row Map.empty (JObj example_fields) [] = Inr (map JObj recs) \<and>
      length recs = 2 \<and>
      map_of (recs ! 0) ''time'' = Some (JNum 1) \<and>
      map_of (recs ! 1) ''time'' = Some (JNum (6 / 5)) \<and>
      map_of (recs ! 0) ''times'' = None \<and>
      map_of (recs ! 1) ''times'' = None \<and>
      map_of (recs ! 0) ''mean'' = Some (JNum (11 / 10)) \<and>
      map_of (recs ! 1) ''command'' = Some (JStr example_command) \<and>
      (\<exists>c msg. recs ! 1 =
         [(''command'', JStr example_command), (''mean'', JNum (11 / 10)),
          (''commit'', JStr c), (''message'', JStr msg), (''time'', JNum (6 / 5))]))"
proof -
  let ?ts = "[JNum 1, JNum (6 / 5) :: rat json]"
  have c: "map_of example_fields ''command'' = Some (JStr example_command)"
    by (simp add: example_fields_def)
  obtain m where m: "re_match label_pattern example_command = Some m"
    using label_groups_match[OF example_label] by blast
  have t: "map_of example_fields ''times'' = Some (JArr ?ts)"
    by (simp add: example_fields_def)
  from one_record_per_sample[OF c m t, of Map.empty "[]"] obtain recs where
    r: "process_row Map.empty (JObj example_fields) [] = Inr ([] @ map JObj recs) \<and>
        length recs = length ?ts \<and>
        (\<forall>i<length ?ts.
           map_of (recs ! i) ''time'' = Some (?ts ! i) \<and>
           map_of (recs ! i) ''times'' = None \<and>
           map_of (recs ! i) ''commit'' \<noteq> None \<and>
           map_of (recs ! i) ''message'' \<noteq> None \<and>
           (\<forall>k. k \<notin> {''times'', ''time'', ''commit'', ''message''} \<longrightarrow>
                map_of (recs ! i) k = map_of example_fields k) \<and>
           (map_of example_fields ''commit'' = None \<and> map_of example_fields ''message'' = None \<and>
            map_of example_fields ''time'' = None \<longrightarrow>
              (\<exists>c msg. recs ! i =
                 AList.delete ''times'' example_fields @
                   [(''commit'', JStr c), (''message'', JStr msg), (''time'', ?ts ! i)])))" ..
  note r3 = r[THEN conjunct2, THEN conjunct2, THEN spec, THEN mp]
  have l0: "0 < length ?ts" and l1: "1 < length ?ts" by simp_all
  note a0 = r3[OF l0] and a1 = r3[OF l1]
  note k0 = a0[THEN conjunct2, THEN conjunct2, THEN conjunct2, THEN conjunct2, THEN conjunct1,
      THEN spec, THEN mp]
  note k1 = a1[THEN conjunct2, THEN conjunct2, THEN conjunct2, THEN conjunct2, THEN conjunct1,
      THEN spec, THEN mp]
  note e1 = a1[THEN conjunct2, THEN conjunct2, THEN conjunct2, THEN conjunct2, THEN conjunct2,
      THEN mp]
  have n0: "''mean'' \<notin> {''times'', ''time'', ''commit'', ''message''}"
    and n1: "''command'' \<notin> {''times'', ''time'', ''commit'', ''message''}" by simp_all
  have fresh: "map_of example_fields ''commit'' = None \<and> map_of example_fields ''message'' = None \<and>
            map_of example_fields ''time'' = None"
    by (simp add: example_fields_def)
  have "process_row Map.empty (JObj example_fields) [] = Inr (map JObj recs)"
    using r[THEN conjunct1] by simp
  moreover have "length recs = 2"
    using r[THEN conjunct2, THEN conjunct1] by simp
  moreover have "map_of (recs ! 0) ''time'' = Some (JNum 1)"
    using a0[THEN conjunct1] by simp
  moreover have "map_of (recs ! 1) ''time'' = Some (JNum (6 / 5))"
    using a1[THEN conjunct1] by simp
  moreover have "map_of (recs ! 0) ''times'' = None"
    by (rule a0[THEN conjunct2, THEN conjunct1])
  moreover have "map_of (recs ! 1) ''times'' = None"
    by (rule a1[THEN conjunct2, THEN conjunct1])
  moreover have "map_of (recs ! 0) ''mean'' = Some (JNum (11 / 10))"
    unfolding k0[OF n0] by (simp add: example_fields_def)
  moreover have "map_of (recs ! 1) ''command'' = Some (JStr example_command)"
    unfolding k1[OF n1] by (simp add: example_fields_def)
  moreover have "\<exists>c msg. recs ! 1 =
         [(''command'', JStr example_command), (''mean'', JNum (11 / 10)),
          (''commit'', JStr c), (''message'', JStr msg), (''time'', JNum (6 / 5))]"
    using e1[OF fresh] by (simp add: example_fields_def)
  ultimately have "\<exists>recs. process_row Map.empty (JObj example_fields) [] = Inr (map JObj recs) \<and>
      length recs = 2 \<and>
      map_of (recs ! 0) ''time'' = Some (JNum 1) \<and>
      map_of (recs ! 1) ''time'' = Some (JNum (6 / 5)) \<and>
      map_of (recs ! 0) ''times'' = None \<and>
      map_of (recs ! 1) ''times'' = None \<and>
      map_of (recs ! 0) ''mean'' = Some (JNum (11 / 10)) \<and>
      map_of (recs ! 1) ''command'' = Some (JStr example_command) \<and>
      (\<exists>c msg. recs ! 1 =
         [(''command'', JStr example_command), (''mean'', JNum (11 / 10)),
          (''commit'', JStr c), (''message'', JStr msg), (''time'', JNum (6 / 5))])"
    by (intro exI[of _ recs] conjI)
  moreover have "\<exists>m. re_match label_pattern example_command = Some m"
    by (rule exI[of _ m]) (rule m)
  ultimately show ?thesis using c t by (intro conjI)
qed

text \<open>
  Claim C5. The \<^verbatim>\<open>message\<close> of every record of an entry is the value the log mapping
  holds for the extracted revision, and the empty string when the revision is not a key;
  the lookup raises nothing, the records are produced. The mapping, built from the walk
  of the master branch and keyed by \<^verbatim>\<open>commit.id.hex\<close>, has no key outside the walk and,
  the ids of a walk being distinct, maps the id of each commit to that commit's message.
\<close>

theorem message_from_log:
  assumes "map_of d ''command'' = Some (JStr s)"
    and "re_match label_pattern s = Some m"
    and "map_of d ''times'' = Some (JArr ts)"
  shows "\<exists>dir num hx recs.
           groups m = (dir, Some num, Some hx) \<and>
           process_row (commit2message walk) (JObj d) output = Inr (output @ map JObj recs) \<and>
           length recs = length ts \<and>
           (\<forall>r\<in>set recs.
              map_of r ''message'' =
                Some (JStr (case commit2message walk hx of None \<Rightarrow> '''' | Some msg \<Rightarrow> msg))) \<and>
           (hx \<notin> hex ` set walk \<longrightarrow> commit2message walk hx = None) \<and>
           (\<forall>c\<in>set walk. distinct (map hex walk) \<and> hex c = hx \<longrightarrow>
              commit2message walk hx = Some (message c))"
proof -
  obtain dir num hx recs where
    r: "groups m = (dir, Some num, Some hx)" "length recs = length ts"
      "\<And>i. i < length ts \<Longrightarrow>
         output_row (commit2message walk) d (Some num) (Some hx) (ts ! i) = Inr (recs ! i)"
      "\<And>out. process_row (commit2message walk) (JObj d) out = Inr (out @ map JObj recs)"
    using process_row_records[OF assms, of "commit2message walk"] by blast
  have "map_of r ''message'' =
          Some (JStr (case commit2message walk hx of None \<Rightarrow> '''' | Some msg \<Rightarrow> msg))"
    if "r \<in> set recs" for r
  proof -
    from that obtain i where i: "i < length ts" "r = recs ! i"
      using r(2) by (auto simp add: in_set_conv_nth)
    show ?thesis
      using output_row_fields(4)[OF r(3)[OF i(1)]] i(2) by (simp add: get_message_def)
  qed
  moreover have "hx \<notin> hex ` set walk \<longrightarrow> commit2message walk hx = None"
    by (simp add: commit2message_absent)
  moreover have "\<forall>c\<in>set walk. distinct (map hex walk) \<and> hex c = hx \<longrightarrow>
              commit2message walk hx = Some (message c)"
    using commit2message_present by blast
  ultimately show ?thesis using r(1,2) r(4)[of "output"] by blast
qed

theorem message_from_log_witness:
  "(\<exists>m recs.
      re_match label_pattern example_command = Some m \<and>
      groups m = (Some ''bin/'', Some ''003'', Some ''abc123'') \<and>
      commit2message example_walk ''abc123'' = None \<and>
      process_row (commit2message example_walk) (JObj example_fields) [] = Inr (map JObj recs) \<and>
      length recs = 2 \<and>
      list_all (\<lambda>r. map_of r ''message'' = Some (JStr [])) recs) \<and>
   (\<exists>m recs.
      re_match label_pattern known_command = Some m \<and>
      groups m = (Some ''bin/'', Some ''004'', Some ''c0ffee0123456789abcdef0123456789abcdef01'') \<and>
      commit2message example_walk ''c0ffee0123456789abcdef0123456789abcdef01''
        = Some ''Fix the pager'' \<and>
      process_row (commit2message example_walk) (JObj known_fields) [] = Inr (map JObj recs) \<and>
      length recs = 1 \<and>
      list_all (\<lambda>r. map_of r ''message'' = Some (JStr ''Fix the pager'')) recs)"
proof (rule conjI)
  obtain m where m: "re_match label_pattern example_command = Some m"
    and g: "groups m = (Some ''bin/'', Some ''003'', Some ''abc123'')"
    using label_groups_match[OF example_label] by blast
  from message_from_log[OF example_fields_simps(1) m example_fields_simps(2), of example_walk "[]"]
  obtain dir num hx recs where
    r: "groups m = (dir, Some num, Some hx) \<and>
        process_row (commit2message example_walk) (JObj example_fields) []
          = Inr ([] @ map JObj recs) \<and>
        length recs = length [JNum 1, JNum (6 / 5) :: rat json] \<and>
        (\<forall>r\<in>set recs.
           map_of r ''message'' =
             Some (JStr (case commit2message example_walk hx of None \<Rightarrow> [] | Some msg \<Rightarrow> msg))) \<and>
        (hx \<notin> hex ` set example_walk \<longrightarrow> commit2message example_walk hx = None) \<and>
        (\<forall>c\<in>set example_walk. distinct (map hex example_walk) \<and> hex c = hx \<longrightarrow>
           commit2message example_walk hx = Some (message c))"
    by (elim exE) (rule that, assumption)
  have hx: "hx = ''abc123''" using r[THEN conjunct1] g by simp
  have "list_all (\<lambda>r. map_of r ''message'' = Some (JStr [])) recs"
    using r[THEN conjunct2, THEN conjunct2, THEN conjunct2, THEN conjunct1]
    unfolding hx example_log list_all_iff by simp
  moreover have "process_row (commit2message example_walk) (JObj example_fields) []
      = Inr (map JObj recs)"
    using r[THEN conjunct2, THEN conjunct1] by simp
  moreover have "length recs = 2"
    using r[THEN conjunct2, THEN conjunct2, THEN conjunct1] by simp
  ultimately show "\<exists>m recs.
      re_match label_pattern example_command = Some m \<and>
      groups m = (Some ''bin/'', Some ''003'', Some ''abc123'') \<and>
      commit2message example_walk ''abc123'' = None \<and>
      process_row (commit2message example_walk) (JObj example_fields) [] = Inr (map JObj recs) \<and>
      length recs = 2 \<and>
      list_all (\<lambda>r. map_of r ''message'' = Some (JStr [])) recs"
    using m g example_log(1) by (intro exI[of _ m] exI[of _ recs] conjI)
next
  let ?h = "''c0ffee0123456789abcdef0123456789abcdef01''"
  obtain m where m: "re_match label_pattern known_command = Some m"
    and g: "groups m = (Some ''bin/'', Some ''004'', Some ?h)"
    using label_groups_match[OF known_label] by blast
  from message_from_log[OF known_fields_simps(1) m known_fields_simps(2), of example_walk "[]"]
  obtain dir num hx recs where
    r: "groups m = (dir, Some num, Some hx) \<and>
        process_row (commit2message example_walk) (JObj known_fields) []
          = Inr ([] @ map JObj recs) \<and>
        length recs = length [JNum 2 :: rat json] \<and>
        (\<forall>r\<in>set recs.
           map_of r ''message'' =
             Some (JStr (case commit2message example_walk hx of None \<Rightarrow> [] | Some msg \<Rightarrow> msg))) \<and>
        (hx \<notin> hex ` set example_walk \<longrightarrow> commit2message example_walk hx = None) \<and>
        (\<forall>c\<in>set example_walk. distinct (map hex example_walk) \<and> hex c = hx \<longrightarrow>
           commit2message example_walk hx = Some (message c))"
    by (elim exE) (rule that, assumption)
  have hx: "hx = ?h" using r[THEN conjunct1] g by simp
  have "list_all (\<lambda>r. map_of r ''message'' = Some (JStr ''Fix the pager'')) recs"
    using r[THEN conjunct2, THEN conjunct2, THEN conjunct2, THEN conjunct1]
    unfolding hx example_log list_all_iff by simp
  moreover have "process_row (commit2message example_walk) (JObj known_fields) []
      = Inr (map JObj recs)"
    using r[THEN conjunct2, THEN conjunct1] by simp
  moreover have "length recs = 1"
    using r[THEN conjunct2, THEN conjunct2, THEN conjunct1] by simp
  ultimately show "\<exists>m recs.
      re_match label_pattern known_command = Some m \<and>
      groups m = (Some ''bin/'', Some ''004'', Some ?h) \<and>
      commit2message example_walk ?h = Some ''Fix the pager'' \<and>
      process_row (commit2message example_walk) (JObj known_fields) [] = Inr (map JObj recs) \<and>
      length recs = 1 \<and>
      list_all (\<lambda>r. map_of r ''message'' = Some (JStr ''Fix the pager'')) recs"
    using m g example_log(2) by (intro exI[of _ m] exI[of _ recs] conjI)
qed

text \<open>
  Claim C6. When the command matches, groups 2 and 3 took part in the match, they are
  the digits and the hexadecimal characters that stand in the command right after the
  optional directory, separated by \<^verbatim>\<open>-\<close> and followed by a space, and the \<^verbatim>\<open>commit\<close> of
  every record of the entry is these two substrings joined by \<^verbatim>\<open>-\<close>, character for
  character. For a command written by the convention, \<^verbatim>\<open>DIR/NUM-HEX \<close> followed by
  anything with \<open>DIR\<close> free of \<^verbatim>\<open>/\<close>, or \<^verbatim>\<open>NUM-HEX \<close> followed by text free of \<^verbatim>\<open>/\<close>,
  what is extracted is that \<open>NUM\<close> and that \<open>HEX\<close>.
\<close>

theorem commit_field_as_extracted:
  assumes "map_of d ''command'' = Some (JStr s)"
    and "re_match label_pattern s = Some m"
    and "map_of d ''times'' = Some (JArr ts)"
  shows "\<exists>dir num hx rest recs.
           groups m = (dir, Some num, Some hx) \<and>
           s = (case dir of None \<Rightarrow> [] | Some p \<Rightarrow> p) @ num @ ''-'' @ hx @ '' '' @ rest \<and>
           num \<noteq> [] \<and> (\<forall>x\<in>set num. cls_ok digit_cls x) \<and>
           hx \<noteq> [] \<and> (\<forall>x\<in>set hx. cls_ok hex_cls x) \<and>
           process_row c2m (JObj d) output = Inr (output @ map JObj recs) \<and>
           length recs = length ts \<and>
           (\<forall>r\<in>set recs. map_of r ''commit'' = Some (JStr (num @ ''-'' @ hx))) \<and>
           (\<forall>p n h t.
              s = p @ ''/'' @ n @ ''-'' @ h @ '' '' @ t \<and> p \<noteq> [] \<and> CHR ''/'' \<notin> set p \<and>
              n \<noteq> [] \<and> (\<forall>x\<in>set n. cls_ok digit_cls x) \<and>
              h \<noteq> [] \<and> (\<forall>x\<in>set h. cls_ok hex_cls x)
              \<longrightarrow> dir = Some (p @ ''/'') \<and> num = n \<and> hx = h) \<and>
           (\<forall>n h t.
              s = n @ ''-'' @ h @ '' '' @ t \<and> CHR ''/'' \<notin> set t \<and>
              n \<noteq> [] \<and> (\<forall>x\<in>set n. cls_ok digit_cls x) \<and>
              h \<noteq> [] \<and> (\<forall>x\<in>set h. cls_ok hex_cls x)
              \<longrightarrow> dir = None \<and> num = n \<and> hx = h)"
proof -
  obtain dir num hx recs where
    r: "label_groups s = Some (dir, num, hx)"
      "groups m = (dir, Some num, Some hx)" "length recs = length ts"
      "\<And>i. i < length ts \<Longrightarrow> output_row c2m d (Some num) (Some hx) (ts ! i) = Inr (recs ! i)"
      "\<And>out. process_row c2m (JObj d) out = Inr (out @ map JObj recs)"
    using process_row_records[OF assms, of c2m] by blast
  obtain rest where
    s: "s = (case dir of None \<Rightarrow> [] | Some p \<Rightarrow> p) @ num @ ''-'' @ hx @ '' '' @ rest"
    using label_groups_shape(1)[OF r(1)] by blast
  have c: "map_of r ''commit'' = Some (JStr (num @ ''-'' @ hx))" if "r \<in> set recs" for r
  proof -
    from that obtain i where i: "i < length ts" "r = recs ! i"
      using r(3) by (auto simp add: in_set_conv_nth)
    show ?thesis
      using output_row_fields(3)[OF r(4)[OF i(1)]] i(2) by (simp add: format_group_def)
  qed
  have a: "dir = Some (p @ ''/'') \<and> num = n \<and> hx = h"
    if "s = p @ ''/'' @ n @ ''-'' @ h @ '' '' @ t \<and> p \<noteq> [] \<and> CHR ''/'' \<notin> set p \<and>
        n \<noteq> [] \<and> (\<forall>x\<in>set n. cls_ok digit_cls x) \<and>
        h \<noteq> [] \<and> (\<forall>x\<in>set h. cls_ok hex_cls x)" for p n h t
  proof -
    have "label_groups (p @ ''/'' @ n @ ''-'' @ h @ '' '' @ t) = Some (Some (p @ ''/''), n, h)"
      using that by (intro label_groups_dir) simp_all
    with that r(1) show ?thesis by simp
  qed
  have b: "dir = None \<and> num = n \<and> hx = h"
    if "s = n @ ''-'' @ h @ '' '' @ t \<and> CHR ''/'' \<notin> set t \<and>
        n \<noteq> [] \<and> (\<forall>x\<in>set n. cls_ok digit_cls x) \<and>
        h \<noteq> [] \<and> (\<forall>x\<in>set h. cls_ok hex_cls x)" for n h t
  proof -
    have "label_groups (n @ ''-'' @ h @ '' '' @ t) = Some (None, n, h)"
      using that by (intro label_groups_nodir) simp_all
    with that r(1) show ?thesis by simp
  qed
  have C: "\<forall>r\<in>set recs. map_of r ''commit'' = Some (JStr (num @ ''-'' @ hx))"
    by (intro ballI) (rule c)
  have A: "\<forall>p n h t.
              s = p @ ''/'' @ n @ ''-'' @ h @ '' '' @ t \<and> p \<noteq> [] \<and> CHR ''/'' \<notin> set p \<and>
              n \<noteq> [] \<and> (\<forall>x\<in>set n. cls_ok digit_cls x) \<and>
              h \<noteq> [] \<and> (\<forall>x\<in>set h. cls_ok hex_cls x)
              \<longrightarrow> dir = Some (p @ ''/'') \<and> num = n \<and> hx = h"
    by (intro allI impI) (rule a)
  have B: "\<forall>n h t.
              s = n @ ''-'' @ h @ '' '' @ t \<and> CHR ''/'' \<notin> set t \<and>
              n \<noteq> [] \<and> (\<forall>x\<in>set n. cls_ok digit_cls x) \<and>
              h \<noteq> [] \<and> (\<forall>x\<in>set h. cls_ok hex_cls x)
              \<longrightarrow> dir = None \<and> num = n \<and> hx = h"
    by (intro allI impI) (rule b)
  from r(2) s label_groups_shape(2-5)[OF r(1)] r(5)[of "output"] r(3) C A B
  show ?thesis
    by (intro exI[of _ dir] exI[of _ num] exI[of _ hx] exI[of _ rest] exI[of _ recs] conjI)
qed

theorem commit_field_as_extracted_witness:
  "\<exists>m recs.
      map_of example_fields ''command'' = Some (JStr ''bin/003-abc123 < in.diff > /dev/null'') \<and>
      re_match label_pattern ''bin/003-abc123 < in.diff > /dev/null'' = Some m \<and>
      groups m = (Some ''bin/'', Some ''003'', Some ''abc123'') \<and>
      process_row Map.empty (JObj example_fields) [] = Inr (map JObj recs) \<and>
      length recs = 2 \<and>
      list_all (\<lambda>r. map_of r ''commit'' = Some (JStr ''003-abc123'')) recs"
proof -
  obtain m where m: "re_match label_pattern example_command = Some m"
    using label_groups_match[OF example_label] by blast
  from commit_field_as_extracted[OF example_fields_simps(1) m example_fields_simps(2),
      of Map.empty "[]"]
  obtain dir num hx rest recs where
    g: "groups m = (dir, Some num, Some hx)"
    and "example_command =
           (case dir of None \<Rightarrow> [] | Some p \<Rightarrow> p) @ num @ ''-'' @ hx @ '' '' @ rest"
    and p: "process_row Map.empty (JObj example_fields) [] = Inr ([] @ map JObj recs)"
    and l: "length recs = length [JNum 1, JNum (6 / 5) :: rat json]"
    and c: "\<forall>r\<in>set recs. map_of r ''commit'' = Some (JStr (num @ ''-'' @ hx))"
    and a: "\<forall>p n h t.
              example_command = p @ ''/'' @ n @ ''-'' @ h @ '' '' @ t \<and> p \<noteq> [] \<and>
              CHR ''/'' \<notin> set p \<and>
              n \<noteq> [] \<and> (\<forall>x\<in>set n. cls_ok digit_cls x) \<and>
              h \<noteq> [] \<and> (\<forall>x\<in>set h. cls_ok hex_cls x)
              \<longrightarrow> dir = Some (p @ ''/'') \<and> num = n \<and> hx = h"
    by (elim exE conjE) (rule that)
  have "example_command = ''bin'' @ ''/'' @ ''003'' @ ''-'' @ ''abc123'' @ '' '' @ ''< in.diff > /dev/null''
      \<and> ''bin'' \<noteq> [] \<and> CHR ''/'' \<notin> set ''bin'' \<and>
      ''003'' \<noteq> [] \<and> (\<forall>x\<in>set ''003''. cls_ok digit_cls x) \<and>
      ''abc123'' \<noteq> [] \<and> (\<forall>x\<in>set ''abc123''. cls_ok hex_cls x)"
    by (simp add: example_command_def digit_cls_def hex_cls_def less_eq_char_def)
  from a[THEN spec, THEN spec, THEN spec, THEN spec, THEN mp, OF this]
  have nh: "dir = Some ''bin/''" "num = ''003''" "hx = ''abc123''" by simp_all
  have "list_all (\<lambda>r. map_of r ''commit'' = Some (JStr ''003-abc123'')) recs"
    using c unfolding nh list_all_iff by simp
  moreover have "process_row Map.empty (JObj example_fields) [] = Inr (map JObj recs)"
    using p by simp
  moreover have "length recs = 2" using l by simp
  moreover have "groups m = (Some ''bin/'', Some ''003'', Some ''abc123'')"
    using g unfolding nh .
  ultimately show ?thesis
    using m example_fields_simps(1) unfolding example_command_def
    by (intro exI[of _ m] exI[of _ recs] conjI)
qed

section \<open>The whole output\<close>

lemma concat_take_Suc:
  "i < length xss \<Longrightarrow> concat (take (Suc i) xss) = concat (take i xss) @ xss ! i"
  by (simp add: take_Suc_conv_app_nth)

lemma length_concat_take_mono:
  "i \<le> j \<Longrightarrow> length (concat (take i xss)) \<le> length (concat (take j xss))"
proof -
  assume "i \<le> j"
  then have "take j xss = take i xss @ take (j - i) (drop i xss)"
    by (metis le_add_diff_inverse take_add)
  then show ?thesis by simp
qed

lemma concat_nth_block:
  assumes "i < length xss" "k < length (xss ! i)"
  shows "concat xss ! (length (concat (take i xss)) + k) = xss ! i ! k"
proof -
  have "xss = take i xss @ xss ! i # drop (Suc i) xss"
    using assms(1) by (simp add: id_take_nth_drop)
  then have "concat xss = concat (take i xss) @ xss ! i @ concat (drop (Suc i) xss)"
    by (metis concat.simps(2) concat_append)
  then show ?thesis using assms(2) by (simp add: nth_append)
qed

lemma blocks_in_order:
  assumes "i < j" "j < length xss" "k < length (xss ! i)"
  shows "length (concat (take i xss)) + k < length (concat (take j xss)) + l"
proof -
  have "length (concat (take (Suc i) xss)) = length (concat (take i xss)) + length (xss ! i)"
    using assms(1,2) by (simp add: concat_take_Suc)
  moreover have "length (concat (take (Suc i) xss)) \<le> length (concat (take j xss))"
    using assms(1) by (intro length_concat_take_mono) simp
  ultimately show ?thesis using assms(3) by simp
qed

lemma well_formed_row_intro:
  assumes "map_of d ''command'' = Some (JStr s)" "label_groups s = Some g"
    and "map_of d ''times'' = Some (JArr ts)"
  shows "well_formed_row (JObj d)"
proof -
  obtain m where "re_match label_pattern s = Some m"
    using re_match_None[of s] assms(2) by (cases "re_match label_pattern s") auto
  then show ?thesis using assms(1,3) by (simp add: well_formed_row_def getitem_def)
qed

lemma example_report_rows:
  "report_rows example_report = [JObj example_fields, JObj known_fields]"
  by (simp add: report_rows_def example_report_def getitem_def)

lemma example_row_times:
  "row_times (JObj example_fields) = [JNum 1, JNum (6 / 5)]"
  "row_times (JObj known_fields) = [JNum 2]"
  by (simp_all add: row_times_def getitem_def example_fields_simps known_fields_simps)

lemma example_report_well_formed: "well_formed_report example_report"
  using well_formed_row_intro[OF example_fields_simps(1) example_label example_fields_simps(2)]
    well_formed_row_intro[OF known_fields_simps(1) known_label known_fields_simps(2)]
  by (simp add: well_formed_report_def example_report_def getitem_def)

lemma example_master: "example_repo ''master'' = Some example_walk"
  by (simp add: example_repo_def)

lemma process_example_fields:
  "process_row c2m (JObj example_fields) out =
     Inr (out @
       [JObj [(''command'', JStr example_command), (''mean'', JNum (11 / 10)),
              (''commit'', JStr ''003-abc123''),
              (''message'', JStr (get_message c2m (Some ''abc123''))),
              (''time'', JNum 1)],
        JObj [(''command'', JStr example_command), (''mean'', JNum (11 / 10)),
              (''commit'', JStr ''003-abc123''),
              (''message'', JStr (get_message c2m (Some ''abc123''))),
              (''time'', JNum (6 / 5))]])"
proof -
  obtain m where "re_match label_pattern example_command = Some m"
    "groups m = (Some ''bin/'', Some ''003'', Some ''abc123'')"
    using label_groups_match[OF example_label] by blast
  then show ?thesis
    by (simp add: process_row_def getitem_def iter_def example_fields_def output_row_def
        setitem_def delitem_def format_group_def)
qed

lemma process_known_fields:
  "process_row c2m (JObj known_fields) out =
     Inr (out @
       [JObj [(''command'', JStr known_command),
              (''commit'', JStr ''004-c0ffee0123456789abcdef0123456789abcdef01''),
              (''message'',
               JStr (get_message c2m (Some ''c0ffee0123456789abcdef0123456789abcdef01''))),
              (''time'', JNum 2)]])"
proof -
  obtain m where "re_match label_pattern known_command = Some m"
    "groups m = (Some ''bin/'', Some ''004'', Some ''c0ffee0123456789abcdef0123456789abcdef01'')"
    using label_groups_match[OF known_label] by blast
  then show ?thesis
    by (simp add: process_row_def getitem_def iter_def known_fields_def output_row_def
        setitem_def delitem_def format_group_def)
qed

lemma example_output:
  "transform_benchmark_data example_repo example_report =
     Inr (JArr
       [JObj [(''command'', JStr example_command), (''mean'', JNum (11 / 10)),
              (''commit'', JStr ''003-abc123''), (''message'', JStr []),
              (''time'', JNum 1)],
        JObj [(''command'', JStr example_command), (''mean'', JNum (11 / 10)),
              (''commit'', JStr ''003-abc123''), (''message'', JStr []),
              (''time'', JNum (6 / 5))],
        JObj [(''command'', JStr known_command),
              (''commit'', JStr ''004-c0ffee0123456789abcdef0123456789abcdef01''),
              (''message'', JStr ''Fix the pager''),
              (''time'', JNum 2)]])"
  by (simp add: transform_benchmark_data_def example_master example_report_def getitem_def
      iter_def process_example_fields process_known_fields get_message_def example_log)

text \<open>
  Claim C2. For a well-formed report, read in a repository that has a master branch, the
  Transformer ends normally and the array it writes has as many elements as the
  \<^verbatim>\<open>times\<close> lists of the entries of \<^verbatim>\<open>results\<close> have together.
\<close>

theorem output_length:
  assumes "repo ''master'' = Some walk" and "well_formed_report input"
  shows "\<exists>out. transform_benchmark_data repo input = Inr (JArr out) \<and>
           length out = sum_list (map (\<lambda>row. length (row_times row)) (report_rows input))"
proof -
  obtain recss where
    r: "transform_benchmark_data repo input = Inr (JArr (concat recss))"
      "list_all2 (\<lambda>row recs. length recs = length (row_times row) \<and>
                        list_all2 (\<lambda>t r. getitem r ''time'' = Inr t) (row_times row) recs \<and>
                        process_row (commit2message walk) row [] = Inr recs)
                     (report_rows input) recss"
    using transform_ok[of repo walk input] assms by blast
  have "map length recss = map (\<lambda>row. length (row_times row)) (report_rows input)"
    using r(2) by (induction rule: list_all2_induct) simp_all
  then have "length (concat recss) =
      sum_list (map (\<lambda>row. length (row_times row)) (report_rows input))"
    by (simp add: length_concat)
  with r(1) show ?thesis by blast
qed

theorem output_length_witness:
  "example_repo ''master'' = Some example_walk \<and>
   well_formed_report example_report \<and>
   report_rows example_report = [JObj example_fields, JObj known_fields] \<and>
   (\<exists>out. transform_benchmark_data example_repo example_report = Inr (JArr out) \<and>
      length out = 3)"
proof -
  from output_length[of example_repo example_walk example_report,
      OF example_master example_report_well_formed]
  have "\<exists>out. transform_benchmark_data example_repo example_report = Inr (JArr out) \<and>
      length out = 3"
    by (simp add: example_report_rows example_row_times numeral_3_eq_3)
  then show ?thesis
    using example_master example_report_well_formed example_report_rows by (intro conjI)
qed

text \<open>
  Claim C9. The output array is the concatenation, in the order of \<^verbatim>\<open>results\<close>, of one
  block per entry; the block of an entry is what the loop body produces for that entry,
  and its records carry the entry's samples in the order of \<^verbatim>\<open>times\<close>. So record \<open>k\<close>
  of entry \<open>i\<close> stands in the output before record \<open>l\<close> of entry \<open>j\<close> whenever \<open>i < j\<close>.
\<close>

theorem output_order:
  assumes "repo ''master'' = Some walk" and "well_formed_report input"
  shows "\<exists>recss.
           transform_benchmark_data repo input = Inr (JArr (concat recss)) \<and>
           list_all2 (\<lambda>row recs.
                process_row (commit2message walk) row [] = Inr recs \<and>
                list_all2 (\<lambda>t r. getitem r ''time'' = Inr t) (row_times row) recs)
             (report_rows input) recss \<and>
           (\<forall>i j k l. i < j \<and> j < length recss \<and> k < length (recss ! i) \<and> l < length (recss ! j) \<longrightarrow>
              length (concat (take i recss)) + k < length (concat (take j recss)) + l \<and>
              concat recss ! (length (concat (take i recss)) + k) = recss ! i ! k \<and>
              concat recss ! (length (concat (take j recss)) + l) = recss ! j ! l)"
proof -
  obtain recss where
    r: "transform_benchmark_data repo input = Inr (JArr (concat recss))"
      "list_all2 (\<lambda>row recs. length recs = length (row_times row) \<and>
                        list_all2 (\<lambda>t r. getitem r ''time'' = Inr t) (row_times row) recs \<and>
                        process_row (commit2message walk) row [] = Inr recs)
                     (report_rows input) recss"
    using transform_ok[of repo walk input] assms by blast
  have "list_all2 (\<lambda>row recs.
                process_row (commit2message walk) row [] = Inr recs \<and>
                list_all2 (\<lambda>t r. getitem r ''time'' = Inr t) (row_times row) recs)
             (report_rows input) recss"
    using r(2) by (rule list_all2_mono) simp
  moreover have "length (concat (take i recss)) + k < length (concat (take j recss)) + l \<and>
              concat recss ! (length (concat (take i recss)) + k) = recss ! i ! k \<and>
              concat recss ! (length (concat (take j recss)) + l) = recss ! j ! l"
    if "i < j \<and> j < length recss \<and> k < length (recss ! i) \<and> l < length (recss ! j)" for i j k l
    using that blocks_in_order[of i j recss k l] concat_nth_block[of i recss k]
      concat_nth_block[of j recss l]
    by simp
  ultimately show ?thesis using r(1) by blast
qed

theorem output_order_witness:
  "example_repo ''master'' = Some example_walk \<and>
   well_formed_report example_report \<and>
   report_rows example_report = [JObj example_fields, JObj known_fields] \<and>
   (\<exists>a0 a1 b0.
      transform_benchmark_data example_repo example_report = Inr (JArr [a0, a1, b0]) \<and>
      process_row (commit2message example_walk) (JObj example_fields) [] = Inr [a0, a1] \<and>
      process_row (commit2message example_walk) (JObj known_fields) [] = Inr [b0] \<and>
      getitem a0 ''time'' = Inr (JNum 1) \<and>
      getitem a1 ''time'' = Inr (JNum (6 / 5)) \<and>
      getitem b0 ''time'' = Inr (JNum 2))"
proof -
  from output_order[of example_repo example_walk example_report,
      OF example_master example_report_well_formed]
  obtain recss where
    r: "transform_benchmark_data example_repo example_report = Inr (JArr (concat recss))"
    and l: "list_all2 (\<lambda>row recs.
                process_row (commit2message example_walk) row [] = Inr recs \<and>
                list_all2 (\<lambda>t r. getitem r ''time'' = Inr t) (row_times row) recs)
             (report_rows example_report) recss"
    by (elim exE conjE) (rule that)
  from l obtain a b where ab: "recss = [a, b]"
    and pa: "process_row (commit2message example_walk) (JObj example_fields) [] = Inr a"
    and ta: "list_all2 (\<lambda>t r. getitem r ''time'' = Inr t) [JNum 1, JNum (6 / 5)] a"
    and pb: "process_row (commit2message example_walk) (JObj known_fields) [] = Inr b"
    and tb: "list_all2 (\<lambda>t r. getitem r ''time'' = Inr t) [JNum 2] b"
    unfolding example_report_rows example_row_times
    by (auto simp add: list_all2_Cons1 example_row_times)
  from ta obtain a0 a1 where a: "a = [a0, a1]" "getitem a0 ''time'' = Inr (JNum 1)"
    "getitem a1 ''time'' = Inr (JNum (6 / 5))"
    by (auto simp add: list_all2_Cons1)
  from tb obtain b0 where b: "b = [b0]" "getitem b0 ''time'' = Inr (JNum 2)"
    by (auto simp add: list_all2_Cons1)
  have "transform_benchmark_data example_repo example_report = Inr (JArr [a0, a1, b0])"
    using r ab a(1) b(1) by simp
  moreover have "process_row (commit2message example_walk) (JObj example_fields) [] = Inr [a0, a1]"
    using pa a(1) by simp
  moreover have "process_row (commit2message example_walk) (JObj known_fields) [] = Inr [b0]"
    using pb b(1) by simp
  ultimately have "\<exists>a0 a1 b0.
      transform_benchmark_data example_repo example_report = Inr (JArr [a0, a1, b0]) \<and>
      process_row (commit2message example_walk) (JObj example_fields) [] = Inr [a0, a1] \<and>
      process_row (commit2message example_walk) (JObj known_fields) [] = Inr [b0] \<and>
      getitem a0 ''time'' = Inr (JNum 1) \<and>
      getitem a1 ''time'' = Inr (JNum (6 / 5)) \<and>
      getitem b0 ''time'' = Inr (JNum 2)"
    using a(2,3) b(2) by (intro exI[of _ a0] exI[of _ a1] exI[of _ b0] conjI)
  then show ?thesis
    using example_master example_report_well_formed example_report_rows by (intro conjI)
qed

section \<open>Commands that do not match\<close>

lemma process_row_unmatched:
  assumes "getitem row ''command'' = Inr (JStr s)" "re_match label_pattern s = None"
  shows "process_row c2m row out = Inl AttributeError"
  using assms by (simp add: process_row_def)

lemma results_loop_append:
  "results_loop c2m (pre @ post) out =
     (case results_loop c2m pre out of Inl e \<Rightarrow> Inl e | Inr out' \<Rightarrow> results_loop c2m post out')"
  by (induction pre arbitrary: out) (auto split: sum.splits)

lemma results_loop_fails:
  assumes "row \<in> set rows" "\<And>out. \<exists>e. process_row c2m row out = Inl e"
  shows "\<exists>e. results_loop c2m rows out = Inl e"
  using assms(1)
proof (induction rows arbitrary: out)
  case Nil
  then show ?case by simp
next
  case (Cons r rows)
  show ?case
  proof (cases "process_row c2m r out")
    case (Inl e)
    then show ?thesis by simp
  next
    case (Inr out')
    with assms(2)[of out] have "r \<noteq> row" by auto
    with Cons.prems have "row \<in> set rows" by simp
    from Cons.IH[OF this, of out'] Inr show ?thesis by simp
  qed
qed

lemma transform_fails:
  assumes "getitem input ''results'' = Inr (JArr rows)" "row \<in> set rows"
    and "\<And>c2m out. process_row c2m row out = Inl AttributeError"
  shows "\<exists>e. transform_benchmark_data repo input = Inl e"
proof (cases "repo ''master''")
  case None
  then show ?thesis by (simp add: transform_benchmark_data_def)
next
  case (Some walk)
  obtain e where "results_loop (commit2message walk) rows [] = Inl e"
    using results_loop_fails[OF assms(2), of "commit2message walk" "[]"] assms(3) by blast
  then show ?thesis
    using Some assms(1) by (simp add: transform_benchmark_data_def iter_def)
qed

lemma transform_fails_at:
  assumes "getitem input ''results'' = Inr (JArr (pre @ row # post))"
    and "repo ''master'' = Some walk" and "list_all well_formed_row pre"
    and "\<And>c2m out. process_row c2m row out = Inl AttributeError"
  shows "transform_benchmark_data repo input = Inl AttributeError"
proof -
  obtain recss where
    "\<And>out. results_loop (commit2message walk) pre out = Inr (out @ concat recss)"
    using results_loop_ok[OF assms(3), of "commit2message walk"] by blast
  then have "results_loop (commit2message walk) (pre @ row # post) [] = Inl AttributeError"
    using assms(4) by (simp add: results_loop_append)
  then show ?thesis
    using assms(1,2) by (simp add: transform_benchmark_data_def iter_def)
qed

lemma mytool_label: "label_groups ''mytool'' = None"
  by (simp add: label_groups_def tail_groups_def dir_cls_def digit_cls_def hex_cls_def
      less_eq_char_def)

text \<open>
  Claim C7. An entry whose command does not match the label pattern makes the loop body
  raise (\<^verbatim>\<open>.groups()\<close> of \<^verbatim>\<open>None\<close>), whatever has been collected so far; nothing
  catches it, so a report that holds such an entry never reaches \<^verbatim>\<open>json.dump\<close>: the
  script ends with an error and no output. When the entries before it are well formed
  the error is this \<^verbatim>\<open>AttributeError\<close>. The entry is not skipped.
\<close>

theorem unmatched_label_fails:
  assumes "getitem input ''results'' = Inr (JArr rows)" and "row \<in> set rows"
    and "getitem row ''command'' = Inr (JStr s)" and "re_match label_pattern s = None"
  shows "(\<forall>c2m output. process_row c2m row output = Inl AttributeError) \<and>
         (\<exists>e. transform_benchmark_data repo input = Inl e) \<and>
         (\<forall>walk pre post.
            repo ''master'' = Some walk \<and> rows = pre @ row # post \<and> list_all well_formed_row pre
            \<longrightarrow> transform_benchmark_data repo input = Inl AttributeError)"
proof -
  have p: "process_row c2m row out = Inl AttributeError" for c2m out
    using process_row_unmatched[OF assms(3,4)] .
  have "\<exists>e. transform_benchmark_data repo input = Inl e"
    using transform_fails[OF assms(1,2) p] .
  moreover have "transform_benchmark_data repo input = Inl AttributeError"
    if "repo ''master'' = Some walk \<and> rows = pre @ row # post \<and> list_all well_formed_row pre"
    for walk pre post
    using transform_fails_at[of input pre row post repo walk] assms(1) that p by simp
  ultimately show ?thesis using p by blast
qed

theorem unmatched_label_fails_witness:
  "getitem (JObj [(''results'', JArr [JObj example_fields, mytool_row])]) ''results''
     = Inr (JArr [JObj example_fields, mytool_row]) \<and>
   getitem mytool_row ''command'' = Inr (JStr ''mytool'') \<and>
   re_match label_pattern ''mytool'' = None \<and>
   well_formed_row (JObj example_fields) \<and>
   process_row (commit2message example_walk) mytool_row [] = Inl AttributeError \<and>
   transform_benchmark_data example_repo
     (JObj [(''results'', JArr [JObj example_fields, mytool_row])]) = Inl AttributeError"
proof -
  let ?input = "JObj [(''results'', JArr [JObj example_fields, mytool_row])]"
  have g: "getitem ?input ''results'' = Inr (JArr [JObj example_fields, mytool_row])"
    by (simp add: getitem_def)
  have c: "getitem mytool_row ''command'' = Inr (JStr ''mytool'')"
    by (simp add: getitem_def mytool_row_def)
  have n: "re_match label_pattern ''mytool'' = None"
    by (simp add: re_match_None mytool_label)
  have w: "well_formed_row (JObj example_fields)"
    by (rule well_formed_row_intro[OF example_fields_simps(1) example_label
          example_fields_simps(2)])
  have i: "mytool_row \<in> set [JObj example_fields, mytool_row]" by simp
  note u = unmatched_label_fails[OF g i c n, of example_repo]
  have "process_row (commit2message example_walk) mytool_row [] = Inl AttributeError"
    using u[THEN conjunct1] by blast
  moreover have "transform_benchmark_data example_repo ?input = Inl AttributeError"
    using u[THEN conjunct2, THEN conjunct2, THEN spec, THEN spec, THEN spec, THEN mp,
        of example_walk "[JObj example_fields]" "[]"] example_master w
    by simp
  ultimately show ?thesis using g c n w by (intro conjI)
qed


text \<open>
  Claim C10. A command that is only digits, \<^verbatim>\<open>-\<close> and hexadecimal characters does not
  match: the pattern needs a space after the revision, and no string without a space
  matches. The entry fails in the loop body with the same \<^verbatim>\<open>AttributeError\<close> as any
  other entry whose command does not match, and a report that holds it ends with an
  error.
\<close>

theorem bare_label_fails:
  assumes "\<forall>x\<in>set num. cls_ok digit_cls x" and "\<forall>x\<in>set hx. cls_ok hex_cls x"
    and "getitem row ''command'' = Inr (JStr (num @ ''-'' @ hx))"
  shows "re_match label_pattern (num @ ''-'' @ hx) = None \<and>
         (\<forall>c2m output. process_row c2m row output = Inl AttributeError) \<and>
         (\<forall>row' s' c2m output.
            getitem row' ''command'' = Inr (JStr s') \<and> re_match label_pattern s' = None
            \<longrightarrow> process_row c2m row output = process_row c2m row' output) \<and>
         (\<forall>repo input rows.
            getitem input ''results'' = Inr (JArr rows) \<and> row \<in> set rows
            \<longrightarrow> (\<exists>e. transform_benchmark_data repo input = Inl e)) \<and>
         (\<forall>t. CHR '' '' \<notin> set t \<longrightarrow> re_match label_pattern t = None)"
proof -
  have "CHR '' '' \<notin> set (num @ ''-'' @ hx)"
    using assms(1,2) not_digit_space not_hex_space by auto
  then have n: "re_match label_pattern (num @ ''-'' @ hx) = None"
    by (rule no_space_no_match)
  have p: "process_row c2m row out = Inl AttributeError" for c2m out
    using process_row_unmatched[OF assms(3) n] .
  have "process_row c2m row out = process_row c2m row' out"
    if "getitem row' ''command'' = Inr (JStr s') \<and> re_match label_pattern s' = None"
    for row' s' c2m out
    using that p[of c2m out] process_row_unmatched[of row' s' c2m out] by simp
  moreover have "\<exists>e. transform_benchmark_data repo input = Inl e"
    if "getitem input ''results'' = Inr (JArr rows) \<and> row \<in> set rows" for repo input rows
    using that transform_fails[of input rows row repo] p by blast
  ultimately show ?thesis using n p no_space_no_match by blast
qed

theorem bare_label_fails_witness:
  "list_all (cls_ok digit_cls) ''003'' \<and> list_all (cls_ok hex_cls) ''abc123'' \<and>
   getitem bare_row ''command'' = Inr (JStr ''003-abc123'') \<and>
   re_match label_pattern ''003-abc123'' = None \<and>
   process_row (commit2message example_walk) bare_row [] = Inl AttributeError \<and>
   process_row (commit2message example_walk) bare_row []
     = process_row (commit2message example_walk) mytool_row [] \<and>
   (\<exists>e. transform_benchmark_data example_repo
           (JObj [(''results'', JArr [JObj example_fields, bare_row])]) = Inl e)"
proof -
  let ?input = "JObj [(''results'', JArr [JObj example_fields, bare_row])]"
  have d: "\<forall>x\<in>set ''003''. cls_ok digit_cls x"
    by (simp add: digit_cls_def less_eq_char_def)
  have h: "\<forall>x\<in>set ''abc123''. cls_ok hex_cls x"
    by (simp add: hex_cls_def less_eq_char_def)
  have c: "getitem bare_row ''command'' = Inr (JStr (''003'' @ ''-'' @ ''abc123''))"
    by (simp add: getitem_def bare_row_def)
  note u = bare_label_fails[OF d h c]
  have 1: "re_match label_pattern ''003-abc123'' = None"
    using u[THEN conjunct1] by simp
  have 2: "process_row (commit2message example_walk) bare_row [] = Inl AttributeError"
    using u[THEN conjunct2, THEN conjunct1] by blast
  have m: "getitem mytool_row ''command'' = Inr (JStr ''mytool'') \<and>
           re_match label_pattern ''mytool'' = None"
    by (simp add: getitem_def mytool_row_def re_match_None mytool_label)
  have 3: "process_row (commit2message example_walk) bare_row []
     = process_row (commit2message example_walk) mytool_row []"
    using u[THEN conjunct2, THEN conjunct2, THEN conjunct1, THEN spec, THEN spec, THEN spec,
        THEN spec, THEN mp, OF m] .
  have g: "getitem ?input ''results'' = Inr (JArr [JObj example_fields, bare_row]) \<and>
           bare_row \<in> set [JObj example_fields, bare_row]"
    by (simp add: getitem_def)
  have 4: "\<exists>e. transform_benchmark_data example_repo ?input = Inl e"
    using u[THEN conjunct2, THEN conjunct2, THEN conjunct2, THEN conjunct1, THEN spec,
        THEN spec, THEN spec, THEN mp, OF g] .
  have "list_all (cls_ok digit_cls) ''003''" "list_all (cls_ok hex_cls) ''abc123''"
    using d h by (simp_all add: list_all_iff)
  moreover have "getitem bare_row ''command'' = Inr (JStr ''003-abc123'')"
    using c by simp
  ultimately show ?thesis using 1 2 3 4 by (intro conjI)
qed

section \<open>The commands and the exit status of the Runner\<close>

lemma command_inj:
  "inj_on (\<lambda>e. dir @ ''/'' @ e @ '' < '' @ inp @ '' > /dev/null'') A"
  by (rule inj_onI) simp

lemma path_inj: "inj_on (\<lambda>e. dir @ ''/'' @ e) A"
  by (rule inj_onI) simp

lemma hyperfine_args_unfold:
  "hyperfine_args a entries =
     [''hyperfine'', ''--runs'', ''5'', ''--export-json'', output_file a, ''--ignore-failure'']
     @ map (\<lambda>e. executables_dir a @ ''/'' @ e @ '' < '' @ input_file a @ '' > /dev/null'')
         (sort entries)"
  by (simp add: hyperfine_args_def str_runs)

lemma invocations_listed:
  "listdir sys (executables_dir a) = Inr entries \<Longrightarrow>
     fst (hyperfine_commits sys a) = [hyperfine_args a entries]"
  by (simp add: hyperfine_commits_def Let_def)

lemma example_listing:
  "listdir (example_os rc) (executables_dir example_args)
     = Inr [''002-beef'', ''010-cafe'', ''001-f00d'']"
  by (simp add: example_os_def example_args_def)

lemma runner_outcome:
  "listdir sys (executables_dir a) = Inr entries \<Longrightarrow>
     snd (hyperfine_commits sys a) = check_call sys (hyperfine_args a entries)"
  by (simp add: hyperfine_commits_def Let_def)

text \<open>
  Claim C3. When the directory can be listed, the Runner starts exactly one process. Its
  arguments after the six fixed ones are one command per directory entry: the entries in
  ascending lexicographic order (the order of \<^verbatim>\<open>sorted\<close> on strings), each command of the
  form \<^verbatim>\<open>DIR/ENTRY < INPUT > /dev/null\<close>. The entries of a directory being distinct, so
  are the executable paths and the commands; all commands read the same input file.
\<close>

theorem one_command_per_entry:
  assumes "listdir sys (executables_dir a) = Inr entries" and "distinct entries"
  shows "\<exists>names.
           fst (hyperfine_commits sys a) =
             [[''hyperfine'', ''--runs'', ''5'', ''--export-json'', output_file a,
               ''--ignore-failure'']
              @ map (\<lambda>e. executables_dir a @ ''/'' @ e @ '' < '' @ input_file a @ '' > /dev/null'')
                  names] \<and>
           length names = length entries \<and>
           mset names = mset entries \<and>
           sorted names \<and>
           distinct (map (\<lambda>e. executables_dir a @ ''/'' @ e) names) \<and>
           distinct (map (\<lambda>e. executables_dir a @ ''/'' @ e @ '' < '' @ input_file a
                              @ '' > /dev/null'') names)"
proof -
  have "distinct (sort entries)" using assms(2) by simp
  then have "distinct (map (\<lambda>e. executables_dir a @ ''/'' @ e) (sort entries))"
    and "distinct (map (\<lambda>e. executables_dir a @ ''/'' @ e @ '' < '' @ input_file a
                              @ '' > /dev/null'') (sort entries))"
    using path_inj command_inj by (simp_all add: distinct_map)
  moreover have "fst (hyperfine_commits sys a) =
             [[''hyperfine'', ''--runs'', ''5'', ''--export-json'', output_file a,
               ''--ignore-failure'']
              @ map (\<lambda>e. executables_dir a @ ''/'' @ e @ '' < '' @ input_file a @ '' > /dev/null'')
                  (sort entries)]"
    using invocations_listed[OF assms(1)] by (simp add: hyperfine_args_unfold)
  moreover have "length (sort entries) = length entries" "mset (sort entries) = mset entries"
    "sorted (sort entries)" by simp_all
  ultimately show ?thesis by (intro exI[of _ "sort entries"] conjI)
qed

theorem one_command_per_entry_witness:
  "listdir (example_os 0) (executables_dir example_args)
     = Inr [''002-beef'', ''010-cafe'', ''001-f00d''] \<and>
   distinct [''002-beef'', ''010-cafe'', ''001-f00d''] \<and>
   fst (hyperfine_commits (example_os 0) example_args) =
     [[''hyperfine'', ''--runs'', ''5'', ''--export-json'', ''out.json'', ''--ignore-failure'',
       ''bin/001-f00d < in.diff > /dev/null'',
       ''bin/002-beef < in.diff > /dev/null'',
       ''bin/010-cafe < in.diff > /dev/null'']] \<and>
   (\<exists>names.
      drop 6 (hd (fst (hyperfine_commits (example_os 0) example_args))) =
        map (\<lambda>e. ''bin/'' @ e @ '' < in.diff > /dev/null'') names \<and>
      length names = 3 \<and>
      sorted names \<and>
      distinct (map (\<lambda>e. ''bin/'' @ e) names))"
proof -
  have d: "distinct [''002-beef'', ''010-cafe'', ''001-f00d'']" by simp
  from one_command_per_entry[OF example_listing d, of 0]
  obtain names where
    n: "fst (hyperfine_commits (example_os 0) example_args) =
             [[''hyperfine'', ''--runs'', ''5'', ''--export-json'', output_file example_args,
               ''--ignore-failure'']
              @ map (\<lambda>e. executables_dir example_args @ ''/'' @ e @ '' < ''
                       @ input_file example_args @ '' > /dev/null'') names]"
    and l: "length names = length [''002-beef'', ''010-cafe'', ''001-f00d'']"
    and s: "sorted names"
    and p: "distinct (map (\<lambda>e. executables_dir example_args @ ''/'' @ e) names)"
    by (elim exE conjE) (rule that)
  have "drop 6 (hd (fst (hyperfine_commits (example_os 0) example_args))) =
        map (\<lambda>e. ''bin/'' @ e @ '' < in.diff > /dev/null'') names"
    unfolding n by (simp add: example_args_def)
  moreover have "length names = 3" using l by simp
  moreover have "distinct (map (\<lambda>e. ''bin/'' @ e) names)"
    using p by (simp add: example_args_def)
  ultimately have "\<exists>names.
      drop 6 (hd (fst (hyperfine_commits (example_os 0) example_args))) =
        map (\<lambda>e. ''bin/'' @ e @ '' < in.diff > /dev/null'') names \<and>
      length names = 3 \<and>
      sorted names \<and>
      distinct (map (\<lambda>e. ''bin/'' @ e) names)"
    using s by (intro exI[of _ names] conjI)
  then show ?thesis using example_listing[of 0] d example_invocations[of 0] by (intro conjI)
qed

text \<open>
  Claim C4, as the code has it. When the tool returns a code other than 0,
  \<^verbatim>\<open>check_call\<close> raises \<^verbatim>\<open>CalledProcessError\<close> with that code; nothing catches it, so the
  Runner ends with the interpreter's exit status for an uncaught exception, which is 1
  and not the tool's code.
\<close>

theorem tool_failure_is_raised:
  assumes "listdir sys (executables_dir a) = Inr entries"
    and "call sys (hyperfine_args a entries) = Inr retcode" and "retcode \<noteq> 0"
  shows "snd (hyperfine_commits sys a)
           = Inl (CalledProcessError retcode (hyperfine_args a entries)) \<and>
         exit_status (snd (hyperfine_commits sys a)) = 1"
  using assms by (simp add: runner_outcome check_call_def exit_status_def)

theorem tool_failure_is_raised_witness:
  "listdir (example_os 2) (executables_dir example_args)
     = Inr [''002-beef'', ''010-cafe'', ''001-f00d''] \<and>
   call (example_os 2) (hyperfine_args example_args [''002-beef'', ''010-cafe'', ''001-f00d''])
     = Inr 2 \<and>
   snd (hyperfine_commits (example_os 2) example_args)
     = Inl (CalledProcessError 2
              (hyperfine_args example_args [''002-beef'', ''010-cafe'', ''001-f00d''])) \<and>
   exit_status (snd (hyperfine_commits (example_os 2) example_args)) = 1"
proof -
  have c: "call (example_os 2)
      (hyperfine_args example_args [''002-beef'', ''010-cafe'', ''001-f00d'']) = Inr 2"
    by (simp add: example_os_def)
  have z: "(2::int) \<noteq> 0" by simp
  note u = tool_failure_is_raised[OF example_listing c z]
  from example_listing[of 2] c u[THEN conjunct1] u[THEN conjunct2]
  show ?thesis by (intro conjI)
qed

text \<open>
  The tool's code is not mirrored: with a tool that exits with status 2, the Runner exits
  with status 1.
\<close>

theorem exit_status_not_mirrored:
  "call (example_os 2) (hyperfine_args example_args [''002-beef'', ''010-cafe'', ''001-f00d''])
     = Inr 2 \<and>
   fst (hyperfine_commits (example_os 2) example_args)
     = [hyperfine_args example_args [''002-beef'', ''010-cafe'', ''001-f00d'']] \<and>
   exit_status (snd (hyperfine_commits (example_os 2) example_args)) = 1 \<and>
   exit_status (snd (hyperfine_commits (example_os 2) example_args)) \<noteq> 2"
  by (simp add: invocations_listed[OF example_listing] runner_outcome[OF example_listing]
      check_call_def exit_status_def) (simp add: example_os_def)

end
